theory Spec2Isabelle
  imports Complex_Main "HOL-Library.Word"
begin

section \<open>DAO coin exchange: fixed-point conversion of prices and quantities\<close>

text \<open>
  This theory embeds the conversion routines of the DAO coin limit order API
  (\<^verbatim>\<open>routes/dao_coin_exchange.go\<close>): \<^verbatim>\<open>getNumDigits\<close>, \<^verbatim>\<open>formatFloatAsString\<close>,
  \<^verbatim>\<open>isCoinToFillDESO\<close>, \<^verbatim>\<open>CalculateScaledExchangeRate\<close>, \<^verbatim>\<open>CalculateExchangeRateAsFloat\<close>,
  \<^verbatim>\<open>CalculateQuantityToFillAsBaseUnits\<close> and \<^verbatim>\<open>CalculateQuantityToFillAsFloat\<close>.

  Conventions of the embedding.
  \<^item> A \<^verbatim>\<open>*uint256.Int\<close> is a \<open>256 word\<close>; a \<^verbatim>\<open>*big.Int\<close> is an \<open>int\<close>.
  \<^item> A finite \<^verbatim>\<open>float64\<close> is the real number it denotes exactly (every finite double is a
    dyadic rational). NaN and the infinities are not values of the model, and the sign
    of a zero is not kept.
  \<^item> A Go \<^verbatim>\<open>error\<close> is a value of the datatype \<open>error\<close>; a function returns
    \<open>error + 'a\<close> with \<open>Inl\<close> for the error.
  \<^item> A loop that the source does not bound is a \<^theory_text>\<open>partial_function\<close> in the option
    monad: \<open>None\<close> is "does not return". Functions that run such a loop return an option.
\<close>

subsection \<open>Errors\<close>

datatype error = ParseError | RangeError | OverflowError | Panic

type_synonym uint256 = "256 word"

subsection \<open>Constants of the ledger library\<close>

text \<open>
  Modelled from the spec: the constants \<^verbatim>\<open>lib.NanosPerUnit\<close>, \<^verbatim>\<open>lib.BaseUnitsPerCoin\<close> and
  \<^verbatim>\<open>lib.OneE38\<close> are declared in the ledger library, which is not part of the sources.
  The spec fixes them: \<open>S_ref = 10^9\<close>, \<open>S_gen = 10^18\<close>, \<open>RATE_SCALE = 10^38\<close>.
\<close>

definition NanosPerUnit :: "64 word" where
  "NanosPerUnit = 1000000000"

definition BaseUnitsPerCoin :: uint256 where
  "BaseUnitsPerCoin = 1000000000000000000"

definition OneE38 :: uint256 where
  "OneE38 = 100000000000000000000000000000000000000"

subsection \<open>Decimal digit strings\<close>

text \<open>\<^verbatim>\<open>fmt.Sprintf("%d", n)\<close> for a non-negative integer, and the value of a digit string.\<close>

definition digit_chars :: string where
  "digit_chars = ''0123456789''"

definition digit_char :: "nat \<Rightarrow> char" where
  "digit_char d = digit_chars ! d"

fun fmt_d :: "nat \<Rightarrow> string" where
  "fmt_d n = (if n < 10 then [digit_char n] else fmt_d (n div 10) @ [digit_char (n mod 10)])"

declare fmt_d.simps [simp del]

definition fmt_d_int :: "int \<Rightarrow> string" where
  "fmt_d_int i = (if i < 0 then CHR ''-'' # fmt_d (nat (- i)) else fmt_d (nat i))"

definition is_digit :: "char \<Rightarrow> bool" where
  "is_digit c = (c \<in> set digit_chars)"

definition digit_val :: "char \<Rightarrow> nat" where
  "digit_val c = (if is_digit c then length (takeWhile (\<lambda>d. d \<noteq> c) digit_chars) else 0)"

definition digits_val :: "string \<Rightarrow> nat" where
  "digits_val s = foldl (\<lambda>a c. 10 * a + digit_val c) 0 s"

text \<open>A non-empty digit string that has a leading zero only if it is the string \<open>0\<close>.\<close>

definition canonical_digits :: "string \<Rightarrow> bool" where
  "canonical_digits s \<longleftrightarrow>
     s \<noteq> [] \<and> list_all is_digit s \<and> (hd s = CHR ''0'' \<longrightarrow> s = ''0'')"

subsection \<open>\<^verbatim>\<open>getNumDigits\<close>\<close>

text \<open>
  \<^verbatim>\<open>
  func getNumDigits(val *big.Int) int {
      quotient := big.NewInt(0).Set(val)
      ...
      numDigits := 0
      for quotient.Cmp(zero) != 0 {
          numDigits += 1
          quotient.Div(quotient, ten)
      }
      return numDigits
  }
  \<close>
  \<^verbatim>\<open>big.Int.Div\<close> is Euclidean division; for the positive divisor 10 it is the floor
  division \<open>div\<close> of HOL on \<open>int\<close> (so \<open>-1 div 10 = -1\<close>). The loop has no bound in the
  source, so it is a partial function.
\<close>

partial_function (option) getNumDigits_loop :: "int \<Rightarrow> nat \<Rightarrow> nat option" where
  "getNumDigits_loop quo numDigits =
     (if quo \<noteq> 0 then getNumDigits_loop (quo div 10) (numDigits + 1)
      else Some numDigits)"

definition getNumDigits :: "int \<Rightarrow> nat option" where
  "getNumDigits val = getNumDigits_loop val 0"

text \<open>The number of base-10 digits of a natural number, with no digit for 0.\<close>

fun num_digits :: "nat \<Rightarrow> nat" where
  "num_digits n = (if n = 0 then 0 else Suc (num_digits (n div 10)))"

declare num_digits.simps [simp del]

subsection \<open>Floating point: truncation, formatting and parsing\<close>

text \<open>
  \<^verbatim>\<open>big.NewFloat(0).SetFloat64(f).Int(nil)\<close> truncates towards zero.
\<close>

definition float_to_Int :: "real \<Rightarrow> int" where
  "float_to_Int f = (if 0 \<le> f then \<lfloor>f\<rfloor> else - \<lfloor>- f\<rfloor>)"

text \<open>
  Rounding to the nearest integer, ties to the even one: the rule of
  \<^verbatim>\<open>strconv.FormatFloat\<close> with a fixed precision (it rounds the exact decimal expansion
  of the double) and of \<^verbatim>\<open>strconv.ParseFloat\<close>.
\<close>

definition round_half_even :: "real \<Rightarrow> int" where
  "round_half_even x =
     (if 2 * (x - of_int \<lfloor>x\<rfloor>) < 1 then \<lfloor>x\<rfloor>
      else if 1 < 2 * (x - of_int \<lfloor>x\<rfloor>) then \<lfloor>x\<rfloor> + 1
      else if even \<lfloor>x\<rfloor> then \<lfloor>x\<rfloor> else \<lfloor>x\<rfloor> + 1)"

text \<open>
  \<^verbatim>\<open>fmt.Sprintf("%.<prec>f", f)\<close>: the value rounded to \<open>prec\<close> digits after the decimal
  point; with precision 0 no decimal point is printed.
\<close>

definition fmt_f :: "nat \<Rightarrow> real \<Rightarrow> string" where
  "fmt_f prec f =
     (let n = nat (round_half_even (\<bar>f\<bar> * 10 ^ prec));
          whole = n div 10 ^ prec;
          frac = n mod 10 ^ prec;
          body = (if prec = 0 then fmt_d whole
                  else fmt_d whole @ ''.'' @
                       replicate (prec - length (fmt_d frac)) CHR ''0'' @ fmt_d frac)
      in if f < 0 then CHR ''-'' # body else body)"

subsection \<open>\<^verbatim>\<open>formatFloatAsString\<close>\<close>

text \<open>
  \<^verbatim>\<open>
  func formatFloatAsString(f float64) string {
      fAsBigInt, _ := big.NewFloat(0).SetFloat64(f).Int(nil)
      supportedPrecisionDigits := 15
      numWholeNumberDigits := getNumDigits(fAsBigInt)
      if numWholeNumberDigits <= supportedPrecisionDigits {
          return fmt.Sprintf("%."+fmt.Sprintf("%d", supportedPrecisionDigits-numWholeNumberDigits)+"f", f)
      }
      divisorToDropDigits := big.NewInt(10)
      divisorToDropDigits.Exp(divisorToDropDigits, big.NewInt(int64(numWholeNumberDigits-supportedPrecisionDigits)), nil)
      fAsBigInt.Div(fAsBigInt, divisorToDropDigits)
      fAsBigInt.Mul(fAsBigInt, divisorToDropDigits)
      return fmt.Sprintf("%d.0", fAsBigInt)
  }
  \<close>
\<close>

definition supportedPrecisionDigits :: nat where
  "supportedPrecisionDigits = 15"

definition formatFloatAsString :: "real \<Rightarrow> string option" where
  "formatFloatAsString f =
     (let fAsBigInt = float_to_Int f in
      case getNumDigits fAsBigInt of
        None \<Rightarrow> None
      | Some numWholeNumberDigits \<Rightarrow>
          if numWholeNumberDigits \<le> supportedPrecisionDigits
          then Some (fmt_f (supportedPrecisionDigits - numWholeNumberDigits) f)
          else let divisorToDropDigits = 10 ^ (numWholeNumberDigits - supportedPrecisionDigits)
               in Some (fmt_d_int (fAsBigInt div divisorToDropDigits * divisorToDropDigits) @ ''.0''))"

text \<open>
  The decimal number that \<^verbatim>\<open>formatFloatAsString\<close> prints for a non-negative float:
  the float rounded to \<open>15 - d\<close> decimals when its integer part has \<open>d \<le> 15\<close> digits,
  and its integer part with the digits after the first 15 replaced by zeros otherwise.
\<close>

definition rendered :: "real \<Rightarrow> real" where
  "rendered f =
     (if num_digits (nat \<lfloor>f\<rfloor>) \<le> 15
      then of_int (round_half_even (f * 10 ^ (15 - num_digits (nat \<lfloor>f\<rfloor>)))) /
           10 ^ (15 - num_digits (nat \<lfloor>f\<rfloor>))
      else of_int (\<lfloor>f\<rfloor> div 10 ^ (num_digits (nat \<lfloor>f\<rfloor>) - 15) *
                   10 ^ (num_digits (nat \<lfloor>f\<rfloor>) - 15)))"

text \<open>The integer that scaling the printed decimal by \<open>10^38\<close> gives.\<close>

definition rawScaledRate :: "real \<Rightarrow> nat" where
  "rawScaledRate f = nat \<lfloor>rendered f * 10 ^ 38\<rfloor>"

subsection \<open>Scaling a decimal string\<close>

text \<open>
  Modelled from the spec: \<^verbatim>\<open>lib.ScaleFloatFormatStringToUint256\<close> and
  \<^verbatim>\<open>lib.CalculateScaledExchangeRateFromString\<close> belong to the ledger library, which is
  not part of the sources. The spec describes them as \<open>ParseDecimalToScaled(text, F)\<close>:
  the text is an optional integer part and an optional \<open>.\<close> followed by fractional
  digits; a leading \<open>-\<close>, an empty string, a bare \<open>.\<close> and any character other than
  digits and one \<open>.\<close> are a \<open>ParseError\<close>. The result is
  \<open>integer_part * F + fractional_part * F / 10^(fractional_digit_count)\<close> in exact integer
  arithmetic with the division truncating; it is an \<open>OverflowError\<close> when it does not fit
  the 256-bit unsigned integer and a \<open>RangeError\<close> when it is exactly zero.
\<close>

definition checked_uint256 :: "nat \<Rightarrow> error + uint256" where
  "checked_uint256 scaled =
     (if 2 ^ 256 \<le> scaled then Inl OverflowError
      else if scaled = 0 then Inl RangeError
      else Inr (word_of_nat scaled))"

definition ScaleFloatFormatStringToUint256 :: "string \<Rightarrow> uint256 \<Rightarrow> error + uint256" where
  "ScaleFloatFormatStringToUint256 floatStr scaleFactor =
     (let wholePart = takeWhile (\<lambda>c. c \<noteq> CHR ''.'') floatStr;
          rest = dropWhile (\<lambda>c. c \<noteq> CHR ''.'') floatStr;
          decimalPart = tl rest
      in if floatStr = [] then Inl ParseError
         else if wholePart = [] \<and> decimalPart = [] then Inl ParseError
         else if \<not> list_all is_digit wholePart \<or> \<not> list_all is_digit decimalPart
           then Inl ParseError
         else checked_uint256
                (digits_val wholePart * unat scaleFactor +
                 digits_val decimalPart * unat scaleFactor div 10 ^ length decimalPart))"

definition CalculateScaledExchangeRateFromString :: "string \<Rightarrow> error + uint256" where
  "CalculateScaledExchangeRateFromString priceStr =
     ScaleFloatFormatStringToUint256 priceStr OneE38"

subsection \<open>Which asset the quantity refers to\<close>

text \<open>
  \<^verbatim>\<open>
  func isCoinToFillDESO(buying string, selling string, operationTypeString ...) bool {
      return buying == "" && operationTypeString == DAOCoinLimitOrderOperationTypeStringBID ||
          selling == "" && operationTypeString == DAOCoinLimitOrderOperationTypeStringASK
  }
  \<close>
  The empty string identifies $DESO, the reference asset; any other string a DAO coin.
\<close>

definition DAOCoinLimitOrderOperationTypeStringASK :: string where
  "DAOCoinLimitOrderOperationTypeStringASK = ''ASK''"

definition DAOCoinLimitOrderOperationTypeStringBID :: string where
  "DAOCoinLimitOrderOperationTypeStringBID = ''BID''"

definition isCoinToFillDESO :: "string \<Rightarrow> string \<Rightarrow> string \<Rightarrow> bool" where
  "isCoinToFillDESO buyingCoin sellingCoin operationTypeString =
     (buyingCoin = '''' \<and> operationTypeString = DAOCoinLimitOrderOperationTypeStringBID \<or>
      sellingCoin = '''' \<and> operationTypeString = DAOCoinLimitOrderOperationTypeStringASK)"

subsection \<open>Quantity to base units\<close>

definition calculateQuantityToFillToBaseUnitsWithScalingFactor ::
  "real \<Rightarrow> uint256 \<Rightarrow> (error + uint256) option" where
  "calculateQuantityToFillToBaseUnitsWithScalingFactor quantityToFill scalingFactor =
     (case formatFloatAsString quantityToFill of
        None \<Rightarrow> None
      | Some str \<Rightarrow> Some (ScaleFloatFormatStringToUint256 str scalingFactor))"

definition calculateQuantityToFillAsDAOCoinBaseUnits :: "real \<Rightarrow> (error + uint256) option" where
  "calculateQuantityToFillAsDAOCoinBaseUnits quantityToFill =
     calculateQuantityToFillToBaseUnitsWithScalingFactor quantityToFill BaseUnitsPerCoin"

definition calculateQuantityToFillAsDESONanos :: "real \<Rightarrow> (error + uint256) option" where
  "calculateQuantityToFillAsDESONanos quantityToFill =
     calculateQuantityToFillToBaseUnitsWithScalingFactor quantityToFill (ucast NanosPerUnit)"

definition CalculateQuantityToFillAsBaseUnits ::
  "string \<Rightarrow> string \<Rightarrow> string \<Rightarrow> real \<Rightarrow> (error + uint256) option" where
  "CalculateQuantityToFillAsBaseUnits buyingCoin sellingCoin operationTypeString quantityToFill =
     (if isCoinToFillDESO buyingCoin sellingCoin operationTypeString
      then calculateQuantityToFillAsDESONanos quantityToFill
      else calculateQuantityToFillAsDAOCoinBaseUnits quantityToFill)"

subsection \<open>Parsing a decimal string as a double\<close>

text \<open>
  \<^verbatim>\<open>strconv.ParseFloat(str, 64)\<close> returns the double nearest to the decimal number that
  the string denotes, ties to even, and a range error when that is beyond the largest
  double. The model covers the strings that the callers below build: digits, one \<open>.\<close>,
  digits. Every other string is a parse error of the model.
\<close>

definition decimal_value :: "string \<Rightarrow> real option" where
  "decimal_value s =
     (let wholePart = takeWhile (\<lambda>c. c \<noteq> CHR ''.'') s;
          decimalPart = tl (dropWhile (\<lambda>c. c \<noteq> CHR ''.'') s)
      in if s = [] \<or> (wholePart = [] \<and> decimalPart = []) \<or>
            \<not> list_all is_digit wholePart \<or> \<not> list_all is_digit decimalPart
         then None
         else Some (real (digits_val wholePart) +
                    real (digits_val decimalPart) / 10 ^ length decimalPart))"

fun bit_length :: "nat \<Rightarrow> nat" where
  "bit_length n = (if n = 0 then 0 else Suc (bit_length (n div 2)))"

declare bit_length.simps [simp del]

text \<open>\<open>floor_log2 q\<close> is the integer \<open>k\<close> with \<open>2^k \<le> q < 2^(k+1)\<close>, for \<open>q > 0\<close>.\<close>

definition floor_log2 :: "real \<Rightarrow> int" where
  "floor_log2 q =
     (if 1 \<le> q then int (bit_length (nat \<lfloor>q\<rfloor>)) - 1
      else - int (bit_length (nat (\<lceil>1 / q\<rceil> - 1))))"

definition pow2 :: "int \<Rightarrow> real" where
  "pow2 e = (if 0 \<le> e then 2 ^ nat e else 1 / 2 ^ nat (- e))"

text \<open>
  The double nearest to a real number: a 53-bit significand, the exponent of the last
  place not below \<open>-1074\<close> (subnormal numbers), ties to the even significand.
\<close>

definition round_to_float64 :: "real \<Rightarrow> real" where
  "round_to_float64 q =
     (if q = 0 then 0
      else let e = max (floor_log2 \<bar>q\<bar> - 52) (- 1074);
               m = round_half_even (\<bar>q\<bar> / pow2 e)
           in sgn q * of_int m * pow2 e)"

definition is_float64 :: "real \<Rightarrow> bool" where
  "is_float64 f = (round_to_float64 f = f \<and> \<bar>f\<bar> < 2 ^ 1024)"

definition ParseFloat :: "string \<Rightarrow> error + real" where
  "ParseFloat str =
     (case decimal_value str of
        None \<Rightarrow> Inl ParseError
      | Some q \<Rightarrow> let r = round_to_float64 q in if 2 ^ 1024 \<le> r then Inl RangeError else Inr r)"

subsection \<open>Exchange rates\<close>

text \<open>
  \<^verbatim>\<open>getDESOToDAOCoinBaseUnitsScalingFactor\<close> returns
  \<^verbatim>\<open>uint256.NewInt().Div(lib.BaseUnitsPerCoin, uint256.NewInt().SetUint64(lib.NanosPerUnit))\<close>.
\<close>

definition getDESOToDAOCoinBaseUnitsScalingFactor :: uint256 where
  "getDESOToDAOCoinBaseUnitsScalingFactor = BaseUnitsPerCoin div ucast NanosPerUnit"

text \<open>\<^verbatim>\<open>z.MulOverflow(x, y)\<close>: the product modulo \<open>2^256\<close> and whether it overflowed.\<close>

definition MulOverflow :: "uint256 \<Rightarrow> uint256 \<Rightarrow> uint256 \<times> bool" where
  "MulOverflow x y = (x * y, 2 ^ 256 \<le> unat x * unat y)"

text \<open>
  \<^verbatim>\<open>
  func CalculateScaledExchangeRate(buying string, selling string, exchangeRate float64) (*uint256.Int, error) {
      rawScaledExchangeRate, err := lib.CalculateScaledExchangeRateFromString(formatFloatAsString(exchangeRate))
      if err != nil { return nil, err }
      if rawScaledExchangeRate.IsZero() { return nil, errors.Errorf("The float value %f is too small ...") }
      if buying == "" {
          product := uint256.NewInt()
          overflow := product.MulOverflow(rawScaledExchangeRate, getDESOToDAOCoinBaseUnitsScalingFactor())
          if overflow { return nil, errors.Errorf("Overflow when convering %f ...") }
          return product, nil
      } else if selling == "" {
          quotient := uint256.NewInt().Div(rawScaledExchangeRate, getDESOToDAOCoinBaseUnitsScalingFactor())
          if quotient.IsZero() { return nil, errors.Errorf("The float value %f is too small ...") }
          return quotient, nil
      }
      return rawScaledExchangeRate, nil
  }
  \<close>
  The "too small" errors are \<open>RangeError\<close>, the "Overflow" error is \<open>OverflowError\<close>.
\<close>

definition CalculateScaledExchangeRate ::
  "string \<Rightarrow> string \<Rightarrow> real \<Rightarrow> (error + uint256) option" where
  "CalculateScaledExchangeRate buyingCoin sellingCoin exchangeRate =
     (case formatFloatAsString exchangeRate of
        None \<Rightarrow> None
      | Some str \<Rightarrow>
          Some (case CalculateScaledExchangeRateFromString str of
                  Inl err \<Rightarrow> Inl err
                | Inr rawScaledExchangeRate \<Rightarrow>
                    if rawScaledExchangeRate = 0 then Inl RangeError
                    else if buyingCoin = '''' then
                      (let (product, overflow) =
                             MulOverflow rawScaledExchangeRate getDESOToDAOCoinBaseUnitsScalingFactor
                       in if overflow then Inl OverflowError else Inr product)
                    else if sellingCoin = '''' then
                      (let quo = rawScaledExchangeRate div getDESOToDAOCoinBaseUnitsScalingFactor
                       in if quo = 0 then Inl RangeError else Inr quo)
                    else Inr rawScaledExchangeRate))"

subsection \<open>Rates from a price string\<close>

text \<open>
  Modelled from the spec: \<^verbatim>\<open>CalculateScaledExchangeRateFromPriceString\<close> is not part of the
  sources; only its test, \<^verbatim>\<open>TestCalculateScaledExchangeRateFromPriceString\<close>, is. The spec
  gives the price of a BID as the scaled rate itself and the price of an ASK as the
  inverse \<open>1 / price\<close>, rounded up in integer division (\<open>RATE_SCALE * RATE_SCALE\<close> over the
  scaled price), and it gives the correction for the reference asset of section 4.3. It
  fixes the result only for a pair of two generic assets, where that correction changes
  nothing; the model applies the correction last.
\<close>

datatype DAOCoinLimitOrderOperationType =
  DAOCoinLimitOrderOperationTypeASK | DAOCoinLimitOrderOperationTypeBID

definition invertScaledExchangeRate :: "uint256 \<Rightarrow> error + uint256" where
  "invertScaledExchangeRate rate =
     checked_uint256 ((unat OneE38 * unat OneE38 + unat rate - 1) div unat rate)"

definition referenceCorrection :: "string \<Rightarrow> string \<Rightarrow> uint256 \<Rightarrow> error + uint256" where
  "referenceCorrection buyingCoin sellingCoin rate =
     (if buyingCoin = '''' then
        (if 2 ^ 256 \<le> unat rate * unat getDESOToDAOCoinBaseUnitsScalingFactor
         then Inl OverflowError
         else Inr (rate * getDESOToDAOCoinBaseUnitsScalingFactor))
      else if sellingCoin = '''' then
        (if rate div getDESOToDAOCoinBaseUnitsScalingFactor = 0 then Inl RangeError
         else Inr (rate div getDESOToDAOCoinBaseUnitsScalingFactor))
      else Inr rate)"

definition CalculateScaledExchangeRateFromPriceString ::
  "string \<Rightarrow> string \<Rightarrow> string \<Rightarrow> DAOCoinLimitOrderOperationType \<Rightarrow> error + uint256" where
  "CalculateScaledExchangeRateFromPriceString buyingCoin sellingCoin price operationType =
     (case CalculateScaledExchangeRateFromString price of
        Inl err \<Rightarrow> Inl err
      | Inr rawScaledPrice \<Rightarrow>
          (case operationType of
             DAOCoinLimitOrderOperationTypeBID \<Rightarrow>
               referenceCorrection buyingCoin sellingCoin rawScaledPrice
           | DAOCoinLimitOrderOperationTypeASK \<Rightarrow>
               (case invertScaledExchangeRate rawScaledPrice of
                  Inl err \<Rightarrow> Inl err
                | Inr inverted \<Rightarrow> referenceCorrection buyingCoin sellingCoin inverted)))"

text \<open>
  \<^verbatim>\<open>
  func CalculateExchangeRateAsFloat(buying string, selling string, scaledValue *uint256.Int) (float64, error) {
      scaledValueAsBigInt := scaledValue.ToBig()
      if buying == "" {
          scaledValueAsBigInt.Div(scaledValueAsBigInt, getDESOToDAOCoinBaseUnitsScalingFactor().ToBig())
      } else if selling == "" {
          scaledValueAsBigInt.Mul(scaledValueAsBigInt, getDESOToDAOCoinBaseUnitsScalingFactor().ToBig())
      }
      oneE38AsBigInt := lib.OneE38.ToBig()
      whole := big.NewInt(0).Div(scaledValueAsBigInt, oneE38AsBigInt)
      decimal := big.NewInt(0).Mod(scaledValueAsBigInt, oneE38AsBigInt)
      decimalLeadingZeros := strings.Repeat("0", getNumDigits(oneE38AsBigInt)-getNumDigits(decimal)-1)
      str := fmt.Sprintf("%d.%s%d", whole, decimalLeadingZeros, decimal)
      parsedFloat, err := strconv.ParseFloat(str, 64)
      if err != nil { return 0, err }
      return parsedFloat, nil
  }
  \<close>
  \<^verbatim>\<open>strings.Repeat\<close> panics on a negative count. The tail of the function, from
  \<^verbatim>\<open>decimalLeadingZeros\<close> on, is the same text as the tail of
  \<^verbatim>\<open>calculateQuantityToFillAsFloatWithScalingFactor\<close>; it is \<open>formatScaledAsFloat\<close> here.
\<close>

definition formatScaledAsFloat :: "int \<Rightarrow> int \<Rightarrow> int \<Rightarrow> (error + real) option" where
  "formatScaledAsFloat whole decimal scale =
     (case getNumDigits scale of
        None \<Rightarrow> None
      | Some scaleDigits \<Rightarrow>
          (case getNumDigits decimal of
             None \<Rightarrow> None
           | Some decimalDigits \<Rightarrow>
               if int scaleDigits - int decimalDigits - 1 < 0 then Some (Inl Panic)
               else let decimalLeadingZeros =
                          replicate (nat (int scaleDigits - int decimalDigits - 1)) CHR ''0'';
                        str = fmt_d_int whole @ ''.'' @ decimalLeadingZeros @ fmt_d_int decimal
                    in Some (ParseFloat str)))"

definition CalculateExchangeRateAsFloat ::
  "string \<Rightarrow> string \<Rightarrow> uint256 \<Rightarrow> (error + real) option" where
  "CalculateExchangeRateAsFloat buyingCoin sellingCoin scaledValue =
     (let scaledValueAsBigInt =
            (if buyingCoin = '''' then
               uint scaledValue div uint getDESOToDAOCoinBaseUnitsScalingFactor
             else if sellingCoin = '''' then
               uint scaledValue * uint getDESOToDAOCoinBaseUnitsScalingFactor
             else uint scaledValue);
          oneE38AsBigInt = uint OneE38;
          whole = scaledValueAsBigInt div oneE38AsBigInt;
          decimal = scaledValueAsBigInt mod oneE38AsBigInt
      in formatScaledAsFloat whole decimal oneE38AsBigInt)"

subsection \<open>Base units to quantity\<close>

text \<open>
  \<^verbatim>\<open>
  func calculateQuantityToFillAsFloatWithScalingFactor(quantityAsScaledValue, scalingFactor *uint256.Int) (float64, error) {
      whole := uint256.NewInt().Div(quantityAsScaledValue, scalingFactor)
      decimal := uint256.NewInt().Mod(quantityAsScaledValue, scalingFactor)
      decimalLeadingZeros := strings.Repeat("0", getNumDigits(scalingFactor.ToBig())-getNumDigits(decimal.ToBig())-1)
      str := fmt.Sprintf("%d.%s%d", whole, decimalLeadingZeros, decimal)
      parsedFloat, err := strconv.ParseFloat(str, 64)
      ...
  }
  \<close>
  \<^verbatim>\<open>uint256.Int.Div\<close> and \<^verbatim>\<open>Mod\<close> return 0 for a zero divisor.
\<close>

definition uint256_Div :: "uint256 \<Rightarrow> uint256 \<Rightarrow> uint256" where
  "uint256_Div x y = (if y = 0 then 0 else x div y)"

definition uint256_Mod :: "uint256 \<Rightarrow> uint256 \<Rightarrow> uint256" where
  "uint256_Mod x y = (if y = 0 then 0 else x mod y)"

definition calculateQuantityToFillAsFloatWithScalingFactor ::
  "uint256 \<Rightarrow> uint256 \<Rightarrow> (error + real) option" where
  "calculateQuantityToFillAsFloatWithScalingFactor quantityAsScaledValue scalingFactor =
     (let whole = uint256_Div quantityAsScaledValue scalingFactor;
          decimal = uint256_Mod quantityAsScaledValue scalingFactor
      in formatScaledAsFloat (uint whole) (uint decimal) (uint scalingFactor))"

definition calculateQuantityToFillFromDAOCoinBaseUnitsToFloat ::
  "uint256 \<Rightarrow> (error + real) option" where
  "calculateQuantityToFillFromDAOCoinBaseUnitsToFloat quantityInBaseUnits =
     calculateQuantityToFillAsFloatWithScalingFactor quantityInBaseUnits BaseUnitsPerCoin"

definition calculateQuantityToFillFromDESONanosToFloat :: "uint256 \<Rightarrow> (error + real) option" where
  "calculateQuantityToFillFromDESONanosToFloat quantityInNanos =
     calculateQuantityToFillAsFloatWithScalingFactor quantityInNanos (ucast NanosPerUnit)"

definition CalculateQuantityToFillAsFloat ::
  "string \<Rightarrow> string \<Rightarrow> string \<Rightarrow> uint256 \<Rightarrow> (error + real) option" where
  "CalculateQuantityToFillAsFloat buyingCoin sellingCoin operationTypeString quantityToFillInBaseUnits =
     (if isCoinToFillDESO buyingCoin sellingCoin operationTypeString
      then calculateQuantityToFillFromDESONanosToFloat quantityToFillInBaseUnits
      else calculateQuantityToFillFromDAOCoinBaseUnitsToFloat quantityToFillInBaseUnits)"

section \<open>Evaluation rules\<close>

text \<open>
  The recursive functions are unfolded on numerals only, so that the simplifier
  evaluates them at concrete inputs and leaves them alone elsewhere.
\<close>

lemma fmt_d_numeral:
  "fmt_d (numeral k) = (if numeral k < (10::nat) then [digit_char (numeral k)]
     else fmt_d (numeral k div 10) @ [digit_char (numeral k mod 10)])"
  by (rule fmt_d.simps)

lemma fmt_d_0: "fmt_d 0 = ''0''"
  by (simp add: fmt_d.simps digit_char_def digit_chars_def)

lemma fmt_d_1: "fmt_d (Suc 0) = ''1''"
  by (simp add: fmt_d.simps digit_char_def digit_chars_def)

lemma replicate_numeral: "replicate (numeral k) x = x # replicate (pred_numeral k) x"
  by (simp add: numeral_eq_Suc)

lemmas fmt_d_eval = fmt_d_numeral fmt_d_0 fmt_d_1 digit_char_def digit_chars_def replicate_numeral

lemma num_digits_numeral: "num_digits (numeral k) = Suc (num_digits (numeral k div 10))"
  by (subst num_digits.simps) simp

lemma num_digits_0: "num_digits 0 = 0"
  by (simp add: num_digits.simps)

lemma num_digits_1: "num_digits (Suc 0) = 1"
  by (simp add: num_digits.simps)

lemmas num_digits_eval = num_digits_numeral num_digits_0 num_digits_1

lemma bit_length_numeral: "bit_length (numeral k) = Suc (bit_length (numeral k div 2))"
  by (subst bit_length.simps) simp

lemma bit_length_0: "bit_length 0 = 0"
  by (simp add: bit_length.simps)

lemma bit_length_1: "bit_length (Suc 0) = 1"
  by (simp add: bit_length.simps)

lemmas round_to_float64_eval =
  round_to_float64_def floor_log2_def pow2_def round_half_even_def
  bit_length_numeral bit_length_0 bit_length_1

lemmas parse_eval =
  ScaleFloatFormatStringToUint256_def CalculateScaledExchangeRateFromString_def checked_uint256_def
  is_digit_def digits_val_def digit_val_def digit_chars_def

lemmas scale_consts =
  NanosPerUnit_def BaseUnitsPerCoin_def OneE38_def getDESOToDAOCoinBaseUnitsScalingFactor_def

section \<open>The digit-counting loop\<close>

lemma getNumDigits_loop_nonneg:
  "0 \<le> q \<Longrightarrow> getNumDigits_loop q n = Some (n + num_digits (nat q))"
proof (induction "nat q" arbitrary: q n rule: less_induct)
  case less
  show ?case
  proof (cases "q = 0")
    case True
    then show ?thesis
      by (simp add: getNumDigits_loop.simps num_digits.simps)
  next
    case False
    with less.prems have pos: "0 < q" by simp
    have nn: "0 \<le> q div 10" using pos by (simp add: pos_imp_zdiv_nonneg_iff)
    have "q div 10 < q" using pos by (rule int_div_less_self) simp
    then have lt: "nat (q div 10) < nat q"
      using pos by linarith
    have "getNumDigits_loop q n = getNumDigits_loop (q div 10) (n + 1)"
      using False by (subst getNumDigits_loop.simps) simp
    also have "\<dots> = Some (n + 1 + num_digits (nat (q div 10)))"
      by (rule less.hyps [OF lt nn])
    also have "nat (q div 10) = nat q div 10"
      using pos by (simp add: nat_div_distrib)
    also have "n + 1 + num_digits (nat q div 10) = n + num_digits (nat q)"
      using pos by (subst (2) num_digits.simps) simp
    finally show ?thesis .
  qed
qed

lemma getNumDigits_loop_Some_nonneg:
  assumes "getNumDigits_loop q n = Some y"
  shows "0 \<le> q"
proof (rule getNumDigits_loop.raw_induct [where P = "\<lambda>q n y. 0 \<le> q", OF _ assms])
  fix loop :: "int \<Rightarrow> nat \<Rightarrow> nat option" and q :: int and n y :: nat
  assume ih: "\<And>a b z. loop a b = Some z \<Longrightarrow> 0 \<le> a"
    and eq: "(if q \<noteq> 0 then loop (q div 10) (n + 1) else Some n) = Some y"
  show "0 \<le> q"
  proof (cases "q = 0")
    case True
    then show ?thesis by simp
  next
    case False
    with eq have "loop (q div 10) (n + 1) = Some y" by simp
    then have "0 \<le> q div 10" by (rule ih)
    then show ?thesis by (simp add: pos_imp_zdiv_nonneg_iff)
  qed
qed

lemma getNumDigits_nonneg: "0 \<le> v \<Longrightarrow> getNumDigits v = Some (num_digits (nat v))"
  by (simp add: getNumDigits_def getNumDigits_loop_nonneg)

lemma getNumDigits_neg: "v < 0 \<Longrightarrow> getNumDigits v = None"
  using getNumDigits_loop_Some_nonneg [of v 0]
  by (cases "getNumDigits v") (auto simp: getNumDigits_def)

lemma num_digits_bounds: "0 < n \<Longrightarrow> 10 ^ (num_digits n - 1) \<le> n \<and> n < 10 ^ num_digits n"
proof (induction n rule: less_induct)
  case (less n)
  show ?case
  proof (cases "n < 10")
    case True
    with less.prems have "num_digits n = 1"
      by (subst num_digits.simps) (simp add: num_digits.simps)
    with True less.prems show ?thesis by simp
  next
    case False
    then have pos: "0 < n div 10" by (simp add: div_greater_zero_iff)
    have lt: "n div 10 < n" using less.prems by simp
    note ih = less.IH [OF lt pos]
    have nd: "num_digits n = Suc (num_digits (n div 10))"
      using less.prems by (subst num_digits.simps) simp
    have dpos: "0 < num_digits (n div 10)"
      using pos by (subst num_digits.simps) simp
    then obtain k where k: "num_digits (n div 10) = Suc k"
      by (cases "num_digits (n div 10)") auto
    from ih k have lo: "10 ^ k \<le> n div 10" and hi: "n div 10 < 10 ^ Suc k" by simp_all
    from lo have "10 * 10 ^ k \<le> n" by (simp add: less_eq_div_iff_mult_less_eq mult.commute)
    moreover from hi have "n < 10 * 10 ^ Suc k"
      by (simp add: div_less_iff_less_mult mult.commute)
    ultimately show ?thesis by (simp add: nd k)
  qed
qed

lemma formatFloatAsString_nonneg:
  "0 \<le> f \<Longrightarrow> formatFloatAsString f =
     Some (if num_digits (nat \<lfloor>f\<rfloor>) \<le> 15 then fmt_f (15 - num_digits (nat \<lfloor>f\<rfloor>)) f
           else fmt_d (nat (\<lfloor>f\<rfloor> div 10 ^ (num_digits (nat \<lfloor>f\<rfloor>) - 15) *
                             10 ^ (num_digits (nat \<lfloor>f\<rfloor>) - 15))) @ ''.0'')"
proof -
  assume f: "0 \<le> f"
  then have "0 \<le> \<lfloor>f\<rfloor>" by simp
  then have "0 \<le> \<lfloor>f\<rfloor> div 10 ^ (num_digits (nat \<lfloor>f\<rfloor>) - 15) * 10 ^ (num_digits (nat \<lfloor>f\<rfloor>) - 15)"
    by (simp add: pos_imp_zdiv_nonneg_iff)
  with f show ?thesis
    by (simp add: formatFloatAsString_def float_to_Int_def getNumDigits_nonneg
        supportedPrecisionDigits_def fmt_d_int_def Let_def)
qed

lemma formatScaledAsFloat_nonneg:
  "0 \<le> decimal \<Longrightarrow> 0 \<le> scale \<Longrightarrow> \<exists>r. formatScaledAsFloat whole decimal scale = Some r"
  by (simp add: formatScaledAsFloat_def getNumDigits_nonneg Let_def)

section \<open>Digit strings\<close>

lemma digit_cases:
  assumes "d < (10::nat)"
  obtains "d = 0" | "d = 1" | "d = 2" | "d = 3" | "d = 4" | "d = 5" | "d = 6" | "d = 7"
    | "d = 8" | "d = 9"
  using assms by atomize_elim arith

lemma is_digit_digit_char: "d < 10 \<Longrightarrow> is_digit (digit_char d)"
  by (erule digit_cases) (simp_all add: is_digit_def digit_char_def digit_chars_def)

lemma digit_val_digit_char: "d < 10 \<Longrightarrow> digit_val (digit_char d) = d"
  by (erule digit_cases) (simp_all add: digit_val_def is_digit_def digit_char_def digit_chars_def)

lemma digit_char_not_dot: "d < 10 \<Longrightarrow> digit_char d \<noteq> CHR ''.''"
  by (erule digit_cases) (simp_all add: digit_char_def digit_chars_def)

lemma is_digit_not_dot: "is_digit c \<Longrightarrow> c \<noteq> CHR ''.''"
  by (auto simp: is_digit_def digit_chars_def)

lemma is_digit_zero: "is_digit CHR ''0''"
  by (simp add: is_digit_def digit_chars_def)

lemma digit_val_zero: "digit_val CHR ''0'' = 0"
  by (simp add: digit_val_def is_digit_def digit_chars_def)

lemma digits_val_snoc: "digits_val (s @ [c]) = 10 * digits_val s + digit_val c"
  by (simp add: digits_val_def)

lemma digits_val_Nil: "digits_val [] = 0"
  by (simp add: digits_val_def)

lemma foldl_digits_shift:
  "foldl (\<lambda>a c. 10 * a + digit_val c) a s = a * 10 ^ length s + digits_val s"
proof (induction s arbitrary: a rule: rev_induct)
  case Nil
  then show ?case by (simp add: digits_val_def)
next
  case (snoc c s)
  then show ?case by (simp add: digits_val_snoc algebra_simps)
qed

lemma digits_val_append: "digits_val (s @ t) = digits_val s * 10 ^ length t + digits_val t"
proof -
  have "digits_val (s @ t) = foldl (\<lambda>a c. 10 * a + digit_val c) (digits_val s) t"
    by (simp add: digits_val_def)
  also have "\<dots> = digits_val s * 10 ^ length t + digits_val t"
    by (rule foldl_digits_shift)
  finally show ?thesis .
qed

lemma digits_val_zeros: "digits_val (replicate k CHR ''0'') = 0"
proof (induction k)
  case 0
  then show ?case by (simp add: digits_val_Nil)
next
  case (Suc k)
  have "digits_val (replicate (Suc k) CHR ''0'') = digits_val (replicate k CHR ''0'' @ [CHR ''0''])"
    by (simp only: replicate_append_same replicate.simps)
  also have "\<dots> = 0"
    using Suc by (simp add: digits_val_snoc digit_val_zero)
  finally show ?case .
qed

lemma list_all_zeros: "list_all is_digit (replicate k CHR ''0'')"
  by (induction k) (simp_all add: is_digit_zero)

lemma list_all_is_digit_fmt_d: "list_all is_digit (fmt_d n)"
proof (induction n rule: fmt_d.induct)
  case (1 n)
  show ?case
  proof (cases "n < 10")
    case True
    then show ?thesis by (subst fmt_d.simps) (simp add: is_digit_digit_char)
  next
    case False
    with 1 show ?thesis by (subst fmt_d.simps) (simp add: is_digit_digit_char)
  qed
qed

lemma digits_val_fmt_d: "digits_val (fmt_d n) = n"
proof (induction n rule: fmt_d.induct)
  case (1 n)
  show ?case
  proof (cases "n < 10")
    case True
    then show ?thesis
      by (subst fmt_d.simps) (simp add: digits_val_def digit_val_digit_char)
  next
    case False
    with 1 show ?thesis
      by (subst fmt_d.simps) (simp add: digits_val_snoc digit_val_digit_char)
  qed
qed

lemma length_fmt_d: "length (fmt_d n) = (if n = 0 then 1 else num_digits n)"
proof (induction n rule: fmt_d.induct)
  case (1 n)
  show ?case
  proof (cases "n < 10")
    case True
    then have "num_digits n = (if n = 0 then 0 else 1)"
      by (subst num_digits.simps) (simp add: num_digits_0)
    with True show ?thesis by (subst fmt_d.simps) simp
  next
    case False
    then have "n div 10 \<noteq> 0" by simp
    moreover have "num_digits n = Suc (num_digits (n div 10))"
      using False by (subst num_digits.simps) simp
    ultimately show ?thesis using 1 False by (subst fmt_d.simps) simp
  qed
qed

lemma fmt_d_not_Nil: "fmt_d n \<noteq> []"
  by (subst fmt_d.simps) simp

lemma num_digits_le: "n < 10 ^ k \<Longrightarrow> num_digits n \<le> k"
proof (cases "n = 0")
  case True
  then show ?thesis by (simp add: num_digits_0)
next
  case False
  assume lt: "n < 10 ^ k"
  from False have "10 ^ (num_digits n - 1) \<le> n" using num_digits_bounds [of n] by simp
  with lt have "(10::nat) ^ (num_digits n - 1) < 10 ^ k" by (rule le_less_trans [rotated])
  then have "num_digits n - 1 < k" by simp
  then show ?thesis by simp
qed

lemma length_fmt_d_le: "0 < k \<Longrightarrow> n < 10 ^ k \<Longrightarrow> length (fmt_d n) \<le> k"
  using num_digits_le [of n k] by (simp add: length_fmt_d)

text \<open>A number printed with leading zeros to a fixed width.\<close>

lemma padded_digits:
  assumes "0 < k" and "n < 10 ^ k"
  shows "length (replicate (k - length (fmt_d n)) CHR ''0'' @ fmt_d n) = k"
    and "list_all is_digit (replicate (k - length (fmt_d n)) CHR ''0'' @ fmt_d n)"
    and "digits_val (replicate (k - length (fmt_d n)) CHR ''0'' @ fmt_d n) = n"
  using length_fmt_d_le [OF assms]
  by (simp_all add: list_all_is_digit_fmt_d list_all_zeros digits_val_append digits_val_zeros
      digits_val_fmt_d)

section \<open>Reading back a printed decimal\<close>

lemma split_at_dot:
  assumes "list_all is_digit w"
  shows "takeWhile (\<lambda>c. c \<noteq> CHR ''.'') (w @ CHR ''.'' # fs) = w"
    and "tl (dropWhile (\<lambda>c. c \<noteq> CHR ''.'') (w @ CHR ''.'' # fs)) = fs"
proof -
  have nd: "\<And>c. c \<in> set w \<Longrightarrow> c \<noteq> CHR ''.''"
    using assms by (auto simp: list_all_iff is_digit_not_dot)
  show "takeWhile (\<lambda>c. c \<noteq> CHR ''.'') (w @ CHR ''.'' # fs) = w"
    using nd by simp
  show "tl (dropWhile (\<lambda>c. c \<noteq> CHR ''.'') (w @ CHR ''.'' # fs)) = fs"
    using nd by simp
qed

lemma split_no_dot:
  assumes "list_all is_digit w"
  shows "takeWhile (\<lambda>c. c \<noteq> CHR ''.'') w = w"
    and "tl (dropWhile (\<lambda>c. c \<noteq> CHR ''.'') w) = []"
proof -
  have nd: "\<And>c. c \<in> set w \<Longrightarrow> c \<noteq> CHR ''.''"
    using assms by (auto simp: list_all_iff is_digit_not_dot)
  then show "takeWhile (\<lambda>c. c \<noteq> CHR ''.'') w = w" by (simp add: takeWhile_eq_all_conv)
  from nd have dw: "dropWhile (\<lambda>c. c \<noteq> CHR ''.'') w = []" by (simp add: dropWhile_eq_Nil_conv)
  show "tl (dropWhile (\<lambda>c. c \<noteq> CHR ''.'') w) = []" by (subst dw) simp
qed

lemma decimal_value_point:
  assumes "list_all is_digit w" and "w \<noteq> []" and "list_all is_digit fs"
  shows "decimal_value (w @ CHR ''.'' # fs) =
    Some (real (digits_val w) + real (digits_val fs) / 10 ^ length fs)"
  using assms by (simp add: decimal_value_def split_at_dot)

lemma decimal_value_integer:
  assumes "list_all is_digit w" and "w \<noteq> []"
  shows "decimal_value w = Some (real (digits_val w))"
  using assms by (simp add: decimal_value_def split_no_dot digits_val_Nil)

lemma Scale_point:
  assumes "list_all is_digit w" and "w \<noteq> []" and "list_all is_digit fs"
  shows "ScaleFloatFormatStringToUint256 (w @ CHR ''.'' # fs) F =
    checked_uint256 (digits_val w * unat F + digits_val fs * unat F div 10 ^ length fs)"
  using assms by (simp add: ScaleFloatFormatStringToUint256_def split_at_dot)

lemma Scale_integer:
  assumes "list_all is_digit w" and "w \<noteq> []"
  shows "ScaleFloatFormatStringToUint256 w F = checked_uint256 (digits_val w * unat F)"
  using assms by (simp add: ScaleFloatFormatStringToUint256_def split_no_dot digits_val_Nil)

section \<open>Concrete conversions\<close>

lemma formatFloatAsString_1: "formatFloatAsString 1 = Some ''1.00000000000000''"
  by (simp add: formatFloatAsString_nonneg num_digits_eval fmt_f_def round_half_even_def fmt_d_eval)

lemma formatFloatAsString_0: "formatFloatAsString 0 = Some ''0.000000000000000''"
  by (simp add: formatFloatAsString_nonneg num_digits_eval fmt_f_def round_half_even_def fmt_d_eval)

lemma quantity_1_DAOCoin:
  "calculateQuantityToFillToBaseUnitsWithScalingFactor 1 BaseUnitsPerCoin =
     Some (Inr 1000000000000000000)"
  by (simp add: calculateQuantityToFillToBaseUnitsWithScalingFactor_def formatFloatAsString_1
      parse_eval scale_consts)

lemma quantity_1_DESO:
  "calculateQuantityToFillToBaseUnitsWithScalingFactor 1 (ucast NanosPerUnit) =
     Some (Inr 1000000000)"
  by (simp add: calculateQuantityToFillToBaseUnitsWithScalingFactor_def formatFloatAsString_1
      parse_eval scale_consts)

lemma quantity_float_1_DAOCoin:
  "calculateQuantityToFillAsFloatWithScalingFactor 1000000000000000000 1000000000000000000 =
     Some (Inr 1)"
  by (simp add: calculateQuantityToFillAsFloatWithScalingFactor_def uint256_Div_def
      uint256_Mod_def formatScaledAsFloat_def getNumDigits_nonneg num_digits_eval
      fmt_d_int_def fmt_d_eval ParseFloat_def decimal_value_def is_digit_def digits_val_def
      digit_val_def round_to_float64_eval)

section \<open>What \<^verbatim>\<open>formatFloatAsString\<close> prints\<close>

lemma round_half_even_nonneg: "0 \<le> x \<Longrightarrow> 0 \<le> round_half_even x"
  by (simp add: round_half_even_def)

lemma round_half_even_near: "\<bar>real_of_int (round_half_even x) - x\<bar> \<le> 1 / 2"
  unfolding round_half_even_def by (auto split: if_splits)

lemma round_half_even_of_int: "round_half_even (of_int n) = n"
  by (simp add: round_half_even_def)

text \<open>The printed form of a non-negative float with a given precision.\<close>

lemma fmt_f_nonneg:
  assumes "0 \<le> f"
  shows "fmt_f prec f =
    (if prec = 0 then fmt_d (nat (round_half_even f))
     else fmt_d (nat (round_half_even (f * 10 ^ prec)) div 10 ^ prec) @ CHR ''.'' #
          replicate (prec - length (fmt_d (nat (round_half_even (f * 10 ^ prec)) mod 10 ^ prec)))
            CHR ''0'' @
          fmt_d (nat (round_half_even (f * 10 ^ prec)) mod 10 ^ prec))"
  using assms by (simp add: fmt_f_def Let_def)

lemma decimal_value_fmt_f:
  assumes "0 \<le> f"
  shows "decimal_value (fmt_f prec f) = Some (of_int (round_half_even (f * 10 ^ prec)) / 10 ^ prec)"
proof (cases "prec = 0")
  case True
  with assms show ?thesis
    by (simp add: fmt_f_nonneg decimal_value_integer list_all_is_digit_fmt_d fmt_d_not_Nil
        digits_val_fmt_d round_half_even_nonneg)
next
  case False
  define n where "n = nat (round_half_even (f * 10 ^ prec))"
  have n: "of_int (round_half_even (f * 10 ^ prec)) = real n"
    using assms by (simp add: n_def round_half_even_nonneg)
  have lt: "n mod 10 ^ prec < 10 ^ prec" by simp
  from False have pos: "0 < prec" by simp
  note pad = padded_digits [OF pos lt]
  have "decimal_value (fmt_f prec f) =
      Some (real (n div 10 ^ prec) + real (n mod 10 ^ prec) / 10 ^ prec)"
    using assms False pad
    by (simp add: fmt_f_nonneg n_def [symmetric] decimal_value_point list_all_is_digit_fmt_d
        fmt_d_not_Nil digits_val_fmt_d)
  also have "real (n div 10 ^ prec) + real (n mod 10 ^ prec) / 10 ^ prec = real n / 10 ^ prec"
  proof -
    have "real (n div 10 ^ prec) * 10 ^ prec + real (n mod 10 ^ prec) =
        real (n div 10 ^ prec * 10 ^ prec + n mod 10 ^ prec)" by simp
    also have "\<dots> = real n" by (simp only: div_mult_mod_eq)
    finally have "real (n div 10 ^ prec) * 10 ^ prec + real (n mod 10 ^ prec) = real n" .
    then show ?thesis by (simp add: field_simps)
  qed
  finally show ?thesis by (simp add: n)
qed

lemma Scale_fmt_f:
  assumes "0 \<le> f"
  shows "ScaleFloatFormatStringToUint256 (fmt_f prec f) F =
    checked_uint256 (nat (round_half_even (f * 10 ^ prec)) * unat F div 10 ^ prec)"
proof (cases "prec = 0")
  case True
  with assms show ?thesis
    by (simp add: fmt_f_nonneg Scale_integer list_all_is_digit_fmt_d fmt_d_not_Nil digits_val_fmt_d)
next
  case False
  define n where "n = nat (round_half_even (f * 10 ^ prec))"
  have lt: "n mod 10 ^ prec < 10 ^ prec" by simp
  from False have pos: "0 < prec" by simp
  note pad = padded_digits [OF pos lt]
  have "ScaleFloatFormatStringToUint256 (fmt_f prec f) F =
      checked_uint256 (n div 10 ^ prec * unat F + n mod 10 ^ prec * unat F div 10 ^ prec)"
    using assms False pad
    by (simp add: fmt_f_nonneg n_def [symmetric] Scale_point list_all_is_digit_fmt_d
        fmt_d_not_Nil digits_val_fmt_d)
  also have "n div 10 ^ prec * unat F + n mod 10 ^ prec * unat F div 10 ^ prec =
      n * unat F div 10 ^ prec"
  proof -
    have "n * unat F = (n div 10 ^ prec * unat F) * 10 ^ prec + n mod 10 ^ prec * unat F"
      by (metis (no_types, lifting) add_mult_distrib div_mult_mod_eq mult.assoc mult.commute)
    then show ?thesis by (metis div_mult_self3 zero_less_numeral zero_less_power less_numeral_extra(3))
  qed
  finally show ?thesis by (simp add: n_def)
qed

text \<open>
  For a non-negative float \<^verbatim>\<open>formatFloatAsString\<close> returns a string that denotes
  \<open>rendered f\<close>, and scaling that string by \<open>F\<close> gives the integer part of
  \<open>rendered f * F\<close>.
\<close>

lemma format_parse:
  assumes "0 \<le> f"
  shows "\<exists>s. formatFloatAsString f = Some s \<and> decimal_value s = Some (rendered f) \<and>
    (\<forall>F. ScaleFloatFormatStringToUint256 s F =
       checked_uint256 (nat \<lfloor>rendered f * real (unat F)\<rfloor>))"
proof (cases "num_digits (nat \<lfloor>f\<rfloor>) \<le> 15")
  case True
  define N where "N = 15 - num_digits (nat \<lfloor>f\<rfloor>)"
  define n where "n = nat (round_half_even (f * 10 ^ N))"
  have n: "of_int (round_half_even (f * 10 ^ N)) = real n"
    using assms by (simp add: n_def round_half_even_nonneg)
  have r: "rendered f = real n / 10 ^ N"
    using True by (simp add: rendered_def N_def [symmetric] n)
  have fl: "nat \<lfloor>rendered f * real (unat F)\<rfloor> = n * unat F div 10 ^ N" for F :: uint256
  proof -
    have "rendered f * real (unat F) = real (n * unat F) / real (10 ^ N)"
      by (simp add: r)
    then show ?thesis by (simp only: floor_divide_of_nat_eq nat_int)
  qed
  have s: "formatFloatAsString f = Some (fmt_f N f)"
    using assms True by (simp add: formatFloatAsString_nonneg N_def)
  have dv: "decimal_value (fmt_f N f) = Some (rendered f)"
    by (simp add: decimal_value_fmt_f [OF assms] r n)
  have sc: "ScaleFloatFormatStringToUint256 (fmt_f N f) F =
      checked_uint256 (nat \<lfloor>rendered f * real (unat F)\<rfloor>)" for F
    by (simp only: Scale_fmt_f [OF assms] fl n_def)
  from s dv sc show ?thesis by simp
next
  case False
  define k where "k = num_digits (nat \<lfloor>f\<rfloor>) - 15"
  define T where "T = nat (\<lfloor>f\<rfloor> div 10 ^ k * 10 ^ k)"
  have nn: "0 \<le> \<lfloor>f\<rfloor> div 10 ^ k * 10 ^ k"
    using assms by (simp add: pos_imp_zdiv_nonneg_iff)
  have r: "rendered f = real T"
    using False nn by (simp add: rendered_def k_def [symmetric] T_def)
  have s: "formatFloatAsString f = Some (fmt_d T @ CHR ''.'' # ''0'')"
    using assms False by (simp add: formatFloatAsString_nonneg k_def [symmetric] T_def)
  have zero: "list_all is_digit ''0''" "digits_val ''0'' = 0"
    by (simp_all add: is_digit_zero digits_val_def digit_val_zero)
  have fl: "nat \<lfloor>real T * real (unat F)\<rfloor> = T * unat F" for F :: uint256
    by (metis floor_of_nat nat_int of_nat_mult)
  have dv: "decimal_value (fmt_d T @ CHR ''.'' # ''0'') = Some (rendered f)"
    by (simp add: r decimal_value_point [OF list_all_is_digit_fmt_d fmt_d_not_Nil zero(1)]
        digits_val_fmt_d zero(2))
  have sc: "ScaleFloatFormatStringToUint256 (fmt_d T @ CHR ''.'' # ''0'') F =
      checked_uint256 (nat \<lfloor>rendered f * real (unat F)\<rfloor>)" for F
  proof -
    have "ScaleFloatFormatStringToUint256 (fmt_d T @ CHR ''.'' # ''0'') F =
        checked_uint256 (T * unat F)"
      by (simp add: Scale_point [OF list_all_is_digit_fmt_d fmt_d_not_Nil zero(1)]
          digits_val_fmt_d zero(2))
    also have "T * unat F = nat \<lfloor>rendered f * real (unat F)\<rfloor>"
      by (simp only: r fl)
    finally show ?thesis .
  qed
  from s dv sc show ?thesis by simp
qed
section \<open>Printing the value of a digit string\<close>

lemma is_digit_cases:
  assumes "is_digit c"
  obtains "c = CHR ''0''" | "c = CHR ''1''" | "c = CHR ''2''" | "c = CHR ''3''" | "c = CHR ''4''"
    | "c = CHR ''5''" | "c = CHR ''6''" | "c = CHR ''7''" | "c = CHR ''8''" | "c = CHR ''9''"
  using assms unfolding is_digit_def digit_chars_def by auto

lemma digit_char_digit_val: "is_digit c \<Longrightarrow> digit_char (digit_val c) = c"
  by (erule is_digit_cases) (simp_all add: digit_val_def is_digit_def digit_char_def digit_chars_def)

lemma digit_val_less: "digit_val c < 10"
proof (cases "is_digit c")
  case True
  then show ?thesis
    by (rule is_digit_cases) (simp_all add: digit_val_def is_digit_def digit_chars_def)
next
  case False
  then show ?thesis by (simp add: digit_val_def)
qed

lemma digit_val_pos: "is_digit c \<Longrightarrow> c \<noteq> CHR ''0'' \<Longrightarrow> 0 < digit_val c"
  by (erule is_digit_cases) (simp_all add: digit_val_def is_digit_def digit_chars_def)

lemma digits_val_Cons: "digits_val (c # s) = digit_val c * 10 ^ length s + digits_val s"
  using digits_val_append [of "[c]" s] by (simp add: digits_val_def)

lemma digits_val_less: "digits_val s < 10 ^ length s"
proof (induction s rule: rev_induct)
  case Nil
  then show ?case by (simp add: digits_val_Nil)
next
  case (snoc c s)
  have "digits_val (s @ [c]) = 10 * digits_val s + digit_val c" by (rule digits_val_snoc)
  also have "\<dots> < 10 * digits_val s + 10" using digit_val_less [of c] by simp
  also have "\<dots> = 10 * (digits_val s + 1)" by simp
  also have "\<dots> \<le> 10 * 10 ^ length s" using snoc by (simp add: Suc_leI)
  finally show ?case by simp
qed

lemma digits_val_pos:
  assumes "list_all is_digit s" and "s \<noteq> []" and "hd s \<noteq> CHR ''0''"
  shows "0 < digits_val s"
proof -
  from assms(2) obtain c t where s: "s = c # t" by (cases s) auto
  with assms have "0 < digit_val c" by (simp add: digit_val_pos)
  then show ?thesis by (simp add: s digits_val_Cons)
qed

lemma digits_val_div_mod:
  "digits_val (a @ b) div 10 ^ length b = digits_val a"
  "digits_val (a @ b) mod 10 ^ length b = digits_val b"
  using digits_val_less [of b] by (simp_all add: digits_val_append)

text \<open>A digit string without a superfluous leading zero is printed back as it is.\<close>

lemma fmt_d_digits_val:
  assumes "canonical_digits s"
  shows "fmt_d (digits_val s) = s"
  using assms
proof (induction s rule: rev_induct)
  case Nil
  then show ?case by (simp add: canonical_digits_def)
next
  case (snoc c t)
  from snoc.prems have c: "is_digit c" and t: "list_all is_digit t"
    by (simp_all add: canonical_digits_def)
  show ?case
  proof (cases "t = []")
    case True
    have "fmt_d (digit_val c) = [digit_char (digit_val c)]"
      using digit_val_less [of c] by (subst fmt_d.simps) simp
    moreover have "digits_val [c] = digit_val c" by (simp add: digits_val_def)
    ultimately show ?thesis
      using True c by (simp add: digit_char_digit_val)
  next
    case False
    then have hd: "hd (t @ [c]) = hd t" by simp
    have nz: "hd t \<noteq> CHR ''0''"
    proof
      assume "hd t = CHR ''0''"
      with snoc.prems hd have "t @ [c] = ''0''" by (simp add: canonical_digits_def)
      with False show False by (cases t) auto
    qed
    with t False have ct: "canonical_digits t" by (simp add: canonical_digits_def)
    have pos: "0 < digits_val t" using t False nz by (rule digits_val_pos)
    define N where "N = 10 * digits_val t + digit_val c"
    have d: "N div 10 = digits_val t" "N mod 10 = digit_val c"
      using digit_val_less [of c] by (simp_all add: N_def)
    have "\<not> N < 10" using pos by (simp add: N_def)
    then have "fmt_d N = fmt_d (N div 10) @ [digit_char (N mod 10)]"
      by (subst fmt_d.simps) simp
    also have "\<dots> = t @ [c]"
      by (simp add: d snoc.IH [OF ct] digit_char_digit_val [OF c])
    finally show ?thesis by (simp add: digits_val_snoc N_def)
  qed
qed

lemma canonical_digits_length:
  assumes "canonical_digits s" and "s \<noteq> ''0''"
  shows "num_digits (digits_val s) = length s"
proof -
  from assms have "hd s \<noteq> CHR ''0''" "list_all is_digit s" "s \<noteq> []"
    by (auto simp: canonical_digits_def)
  then have "digits_val s \<noteq> 0" using digits_val_pos [of s] by simp
  then have "num_digits (digits_val s) = length (fmt_d (digits_val s))"
    by (simp add: length_fmt_d)
  then show ?thesis by (simp add: fmt_d_digits_val [OF assms(1)])
qed

text \<open>Digit strings of one length with one value are equal.\<close>

lemma digit_val_inj: "is_digit c \<Longrightarrow> is_digit d \<Longrightarrow> digit_val c = digit_val d \<Longrightarrow> c = d"
  by (metis digit_char_digit_val)

lemma digits_val_inj:
  assumes "length a = length b" and "list_all is_digit a" and "list_all is_digit b"
    and "digits_val a = digits_val b"
  shows "a = b"
  using assms
proof (induction a arbitrary: b rule: rev_induct)
  case Nil
  then show ?case by simp
next
  case (snoc x a)
  from snoc.prems(1) obtain y b' where b: "b = b' @ [y]"
    by (cases b rule: rev_cases) auto
  from snoc.prems b have len: "length a = length b'" and da: "list_all is_digit a"
    and db: "list_all is_digit b'" and x: "is_digit x" and y: "is_digit y"
    and v: "10 * digits_val a + digit_val x = 10 * digits_val b' + digit_val y"
    by (simp_all add: digits_val_snoc)
  from v digit_val_less [of x] digit_val_less [of y]
  have "digits_val a = digits_val b'" and "digit_val x = digit_val y" by arith+
  with snoc.IH [OF len da db] x y show ?case by (simp add: b digit_val_inj)
qed

lemma padded_digits_val:
  assumes "list_all is_digit fs" and "fs \<noteq> []"
  shows "replicate (length fs - length (fmt_d (digits_val fs))) CHR ''0'' @ fmt_d (digits_val fs) = fs"
proof -
  have pos: "0 < length fs" using assms(2) by simp
  note pad = padded_digits [OF pos digits_val_less [of fs]]
  show ?thesis
    by (rule digits_val_inj) (simp_all only: pad assms(1))
qed

section \<open>Evaluating \<^verbatim>\<open>formatFloatAsString\<close> on a given float\<close>

text \<open>
  With more than 15 integer digits: the first 15 digits of the integer part, zeros for
  the others, and \<open>.0\<close>.
\<close>

lemma formatFloatAsString_large:
  assumes "0 \<le> f" and "\<lfloor>f\<rfloor> = int (digits_val s)" and "canonical_digits s" and "15 < length s"
  shows "formatFloatAsString f = Some (take 15 s @ replicate (length s - 15) CHR ''0'' @ ''.0'')"
    and "num_digits (nat \<lfloor>f\<rfloor>) = length s"
proof -
  define k where "k = length s - 15"
  define hi where "hi = take 15 s"
  define lo where "lo = drop 15 s"
  have s: "s = hi @ lo" and lo: "length lo = k" and hi: "length hi = 15"
    using assms(4) by (simp_all add: hi_def lo_def k_def)
  from assms(3,4) have ne: "s \<noteq> ''0''" by auto
  have nd: "num_digits (nat \<lfloor>f\<rfloor>) = length s"
    by (simp add: assms(2) canonical_digits_length [OF assms(3) ne])
  then show "num_digits (nat \<lfloor>f\<rfloor>) = length s" .
  have d: "digits_val s div 10 ^ k = digits_val hi"
    using digits_val_div_mod(1) [of hi lo] by (simp add: s lo)
  have dh: "list_all is_digit hi" "hi \<noteq> []" "hd hi = hd s"
    using assms(3,4) by (auto simp: canonical_digits_def hi_def list_all_iff dest: in_set_takeD)
  have ch: "canonical_digits (hi @ replicate k CHR ''0'')"
    using dh assms(3) ne assms(4)
    by (auto simp: canonical_digits_def list_all_zeros)
  have "\<lfloor>f\<rfloor> div 10 ^ k * 10 ^ k = int (digits_val s div 10 ^ k * 10 ^ k)"
    by (simp add: assms(2) zdiv_int)
  then have "nat (\<lfloor>f\<rfloor> div 10 ^ k * 10 ^ k) = digits_val s div 10 ^ k * 10 ^ k"
    by (simp only: nat_int)
  also have "\<dots> = digits_val (hi @ replicate k CHR ''0'')"
    by (simp add: d digits_val_append digits_val_zeros)
  finally have "fmt_d (nat (\<lfloor>f\<rfloor> div 10 ^ k * 10 ^ k)) = hi @ replicate k CHR ''0''"
    by (simp only: fmt_d_digits_val [OF ch])
  then show "formatFloatAsString f =
      Some (take 15 s @ replicate (length s - 15) CHR ''0'' @ ''.0'')"
    using assms(1,4) by (simp add: formatFloatAsString_nonneg nd k_def [symmetric] hi_def)
qed

lemmas digits_eval =
  digits_val_def digit_val_def is_digit_def digit_chars_def canonical_digits_def

lemma formatFloatAsString_largeI:
  assumes "0 \<le> f" and "\<lfloor>f\<rfloor> = int n" and "digits_val s = n" and "canonical_digits s"
    and "15 < length s"
    and "take 15 s @ replicate (length s - 15) CHR ''0'' @ ''.0'' = out"
  shows "formatFloatAsString f = Some out" and "num_digits (nat \<lfloor>f\<rfloor>) = length s"
  using formatFloatAsString_large [of f s] assms by simp_all

section \<open>The raw scaled rate of a float\<close>

lemma checked_uint256_Inr:
  "checked_uint256 X = Inr R \<longleftrightarrow> 0 < X \<and> X < 2 ^ 256 \<and> R = word_of_nat X"
  by (auto simp: checked_uint256_def)

lemma unat_word_of_nat_256: "X < 2 ^ 256 \<Longrightarrow> unat (word_of_nat X :: uint256) = X"
  by (simp add: unat_of_nat)

lemma unat_OneE38: "unat OneE38 = 10 ^ 38"
  by (simp add: OneE38_def)

lemma unat_scaling_factor: "unat getDESOToDAOCoinBaseUnitsScalingFactor = 10 ^ 9"
  by (simp add: scale_consts)

text \<open>The printed decimal has at most 15 digits after the point.\<close>

lemma rendered_grid:
  assumes "0 \<le> f"
  shows "\<exists>m::nat. rendered f * 10 ^ 15 = real m"
proof (cases "num_digits (nat \<lfloor>f\<rfloor>) \<le> 15")
  case True
  define N where "N = 15 - num_digits (nat \<lfloor>f\<rfloor>)"
  define n where "n = nat (round_half_even (f * 10 ^ N))"
  have n: "of_int (round_half_even (f * 10 ^ N)) = real n"
    using assms by (simp add: n_def round_half_even_nonneg)
  have N: "N \<le> 15" by (simp add: N_def)
  have p: "(10::real) ^ 15 = 10 ^ N * 10 ^ (15 - N)"
    using N by (simp add: power_add [symmetric])
  have "rendered f = real n / 10 ^ N"
    using True by (simp add: rendered_def N_def [symmetric] n)
  then have "rendered f * 10 ^ 15 = real n / 10 ^ N * (10 ^ N * 10 ^ (15 - N))"
    by (simp only: p)
  also have "\<dots> = real (n * 10 ^ (15 - N))"
    by simp
  finally show ?thesis by blast
next
  case False
  define k where "k = num_digits (nat \<lfloor>f\<rfloor>) - 15"
  have nn: "0 \<le> \<lfloor>f\<rfloor> div 10 ^ k * 10 ^ k"
    using assms by (simp add: pos_imp_zdiv_nonneg_iff)
  have "rendered f * 10 ^ 15 = real (nat (\<lfloor>f\<rfloor> div 10 ^ k * 10 ^ k) * 10 ^ 15)"
    using False nn by (simp add: rendered_def k_def [symmetric])
  then show ?thesis by blast
qed

lemma rawScaledRate_exact:
  assumes "0 \<le> f"
  shows "real (rawScaledRate f) = rendered f * 10 ^ 38" and "10 ^ 23 dvd rawScaledRate f"
proof -
  obtain m :: nat where m: "rendered f * 10 ^ 15 = real m"
    using rendered_grid [OF assms] by blast
  have "rendered f * 10 ^ 38 = rendered f * 10 ^ 15 * 10 ^ 23" by simp
  also have "\<dots> = real m * 10 ^ 23" by (simp only: m)
  also have "\<dots> = real (m * 10 ^ 23)" by simp
  finally have e: "rendered f * 10 ^ 38 = real (m * 10 ^ 23)" .
  then have r: "rawScaledRate f = m * 10 ^ 23"
    unfolding rawScaledRate_def by (simp only: floor_of_nat nat_int)
  show "real (rawScaledRate f) = rendered f * 10 ^ 38" by (simp only: r e)
  show "10 ^ 23 dvd rawScaledRate f" by (simp add: r)
qed

lemma rate_from_string_of_float:
  assumes "0 \<le> f"
  shows "\<exists>s. formatFloatAsString f = Some s \<and>
    CalculateScaledExchangeRateFromString s = checked_uint256 (rawScaledRate f)"
proof -
  obtain s where s: "formatFloatAsString f = Some s"
    and sc: "\<And>F. ScaleFloatFormatStringToUint256 s F =
       checked_uint256 (nat \<lfloor>rendered f * real (unat F)\<rfloor>)"
    using format_parse [OF assms] by blast
  have "CalculateScaledExchangeRateFromString s = checked_uint256 (rawScaledRate f)"
    by (simp only: CalculateScaledExchangeRateFromString_def sc unat_OneE38 rawScaledRate_def)
      simp
  with s show ?thesis by blast
qed

text \<open>
  \<^verbatim>\<open>CalculateScaledExchangeRate\<close> on a non-negative float, with the string conversions
  resolved.
\<close>

lemma CalculateScaledExchangeRate_nonneg:
  assumes "0 \<le> f"
  shows "CalculateScaledExchangeRate buy sell f =
    Some (case checked_uint256 (rawScaledRate f) of
            Inl err \<Rightarrow> Inl err
          | Inr raw \<Rightarrow>
              if buy = '''' then
                (if 2 ^ 256 \<le> unat raw * 10 ^ 9 then Inl OverflowError
                 else Inr (raw * 1000000000))
              else if sell = '''' then
                (if raw div 1000000000 = 0 then Inl RangeError else Inr (raw div 1000000000))
              else Inr raw)"
proof -
  obtain s where s: "formatFloatAsString f = Some s"
    and r: "CalculateScaledExchangeRateFromString s = checked_uint256 (rawScaledRate f)"
    using rate_from_string_of_float [OF assms] by blast
  have nz: "raw \<noteq> 0" if "checked_uint256 (rawScaledRate f) = Inr raw" for raw
    using that by (auto simp: checked_uint256_Inr unat_word_of_nat_256 dest!: arg_cong [where f = unat])
  have K: "getDESOToDAOCoinBaseUnitsScalingFactor = 1000000000"
    by (simp add: scale_consts)
  show ?thesis
    by (auto simp: CalculateScaledExchangeRate_def s r K MulOverflow_def Let_def nz
        split: sum.splits)
qed

section \<open>Further facts about the rate conversion\<close>

lemma checked_uint256_nonzero:
  assumes "checked_uint256 X = Inr R"
  shows "R \<noteq> 0"
proof
  assume "R = 0"
  with assms have X: "0 < X" "X < 2 ^ 256" and w: "word_of_nat X = (0::uint256)"
    by (simp_all add: checked_uint256_Inr)
  have "unat (word_of_nat X :: uint256) = X"
    using X(2) by (rule unat_word_of_nat_256)
  then have "X = 0" by (simp only: w unat_0)
  with X(1) show False by simp
qed

lemma Scale_Inr_nonzero: "ScaleFloatFormatStringToUint256 s F = Inr R \<Longrightarrow> R \<noteq> 0"
  by (auto simp: ScaleFloatFormatStringToUint256_def Let_def split: if_splits
      dest: checked_uint256_nonzero)

lemma rate_1_sell_DESO:
  "CalculateScaledExchangeRate ''TestDAOCoinPubKey'' '''' 1 =
     Some (Inr 100000000000000000000000000000)"
  by (simp add: CalculateScaledExchangeRate_def formatFloatAsString_1 parse_eval scale_consts)

lemma rate_1_buy_DESO:
  "CalculateScaledExchangeRate '''' ''TestDAOCoinPubKey'' 1 =
     Some (Inr 100000000000000000000000000000000000000000000000)"
  by (simp add: CalculateScaledExchangeRate_def formatFloatAsString_1 parse_eval scale_consts
      MulOverflow_def)

lemma fmt_f_shape:
  assumes "0 \<le> f" and "0 < prec"
  shows "\<exists>w fr. fmt_f prec f = w @ CHR ''.'' # fr \<and> w \<noteq> [] \<and> list_all is_digit w \<and>
    list_all is_digit fr \<and> length fr = prec"
proof -
  define n where "n = nat (round_half_even (f * 10 ^ prec))"
  have lt: "n mod 10 ^ prec < 10 ^ prec" by simp
  note pad = padded_digits [OF assms(2) lt]
  have "fmt_f prec f = fmt_d (n div 10 ^ prec) @ CHR ''.'' #
      (replicate (prec - length (fmt_d (n mod 10 ^ prec))) CHR ''0'' @ fmt_d (n mod 10 ^ prec))"
    using assms by (simp add: fmt_f_nonneg n_def)
  with pad show ?thesis
    using list_all_is_digit_fmt_d fmt_d_not_Nil by blast
qed

lemma fmt_f_shape_0: "0 \<le> f \<Longrightarrow> list_all is_digit (fmt_f 0 f)"
  by (simp add: fmt_f_nonneg list_all_is_digit_fmt_d)

lemma formatFloatAsString_large_example:
  "formatFloatAsString 1234567890123456768 = Some ''1234567890123450000.0''"
  by (rule formatFloatAsString_largeI(1) [where s = "''1234567890123456768''"])
    (simp_all add: digits_eval replicate_numeral)

lemma num_digits_large_example: "num_digits 1234567890123456768 = 19"
  using formatFloatAsString_largeI(2) [where s = "''1234567890123456768''"
      and f = 1234567890123456768 and n = 1234567890123456768]
  by (simp add: digits_eval replicate_numeral)

lemma float64_1234567890123456789:
  "round_to_float64 1234567890123456789 = 1234567890123456768"
  by (simp add: round_to_float64_eval)

lemma formatFloatAsString_small_example:
  "formatFloatAsString (2476979795053773 / 2251799813685248) = Some ''1.10000000000000''"
  by (simp add: formatFloatAsString_nonneg num_digits_eval fmt_f_def round_half_even_def fmt_d_eval)

section \<open>From canonical form to a double\<close>

lemma num_digits_pow10: "num_digits (10 ^ k) = Suc k"
proof (induction k)
  case 0
  then show ?case by (simp add: num_digits_1)
next
  case (Suc k)
  have "num_digits (10 ^ Suc k) = Suc (num_digits (10 ^ Suc k div 10))"
    by (subst num_digits.simps) simp
  with Suc show ?case by simp
qed

lemma bit_length_le: "n < 2 ^ k \<Longrightarrow> bit_length n \<le> k"
proof (induction k arbitrary: n)
  case 0
  then show ?case by (simp add: bit_length_0)
next
  case (Suc k)
  show ?case
  proof (cases "n = 0")
    case True
    then show ?thesis by (simp add: bit_length_0)
  next
    case False
    from Suc.prems have "n div 2 < 2 ^ k" by (simp add: less_mult_imp_div_less mult.commute)
    then have "bit_length (n div 2) \<le> k" by (rule Suc.IH)
    with False show ?thesis by (subst bit_length.simps) simp
  qed
qed

lemma pow2_pos: "0 < pow2 e"
  by (simp add: pow2_def)

lemma pow2_le:
  assumes "e \<le> int j"
  shows "pow2 e \<le> 2 ^ j"
proof (cases "0 \<le> e")
  case True
  with assms have "nat e \<le> j" by simp
  then have "(2::real) ^ nat e \<le> 2 ^ j" by (rule power_increasing) simp
  with True show ?thesis by (simp add: pow2_def)
next
  case False
  have "1 / (2::real) ^ nat (- e) \<le> 1" by (simp add: divide_le_eq)
  also have "(1::real) \<le> 2 ^ j" by simp
  finally show ?thesis using False by (simp add: pow2_def)
qed

lemma floor_log2_le:
  assumes "0 < q" and "q < 2 ^ k" and "0 < k"
  shows "floor_log2 q \<le> int k - 1"
proof (cases "1 \<le> q")
  case True
  from assms(2) have "\<lfloor>q\<rfloor> < 2 ^ k" by (simp add: floor_less_iff)
  then have "nat \<lfloor>q\<rfloor> < 2 ^ k" using True by (simp add: nat_less_iff)
  then have "bit_length (nat \<lfloor>q\<rfloor>) \<le> k" by (rule bit_length_le)
  with True show ?thesis by (simp add: floor_log2_def)
next
  case False
  then have "floor_log2 q \<le> 0" by (simp add: floor_log2_def)
  with assms(3) show ?thesis by simp
qed

lemma round_half_even_le: "real_of_int (round_half_even x) \<le> x + 1 / 2"
  using round_half_even_near [of x] by linarith

lemma round_to_float64_0: "round_to_float64 0 = 0"
  by (simp add: round_to_float64_def)

lemma round_to_float64_nonneg: "0 \<le> q \<Longrightarrow> 0 \<le> round_to_float64 q"
  by (simp add: round_to_float64_def Let_def round_half_even_nonneg pow2_pos less_imp_le)

lemma round_to_float64_bound:
  assumes "0 \<le> q" and "q < 2 ^ 1023"
  shows "round_to_float64 q < 2 ^ 1024"
proof (cases "q = 0")
  case True
  then show ?thesis by (simp add: round_to_float64_0)
next
  case False
  with assms have pos: "0 < q" by simp
  define e where "e = max (floor_log2 \<bar>q\<bar> - 52) (- 1074)"
  have "floor_log2 q \<le> int 1023 - 1"
    using pos assms(2) by (rule floor_log2_le) simp
  then have "e \<le> int 970" using pos by (simp add: e_def)
  then have pe: "pow2 e \<le> 2 ^ 970" by (rule pow2_le)
  have "round_to_float64 q = real_of_int (round_half_even (q / pow2 e)) * pow2 e"
    using pos by (simp add: round_to_float64_def e_def Let_def)
  also have "\<dots> \<le> (q / pow2 e + 1 / 2) * pow2 e"
    by (intro mult_right_mono round_half_even_le) (simp add: pow2_pos less_imp_le)
  also have "\<dots> = q + pow2 e / 2"
    using pow2_pos [of e] by (simp add: field_simps)
  also have "\<dots> \<le> q + 2 ^ 970 / 2" using pe by simp
  also have "\<dots> < 2 ^ 1023 + 2 ^ 970 / 2" using assms(2) by simp
  also have "\<dots> < (2::real) ^ 1024" by simp
  finally show ?thesis .
qed

lemma ParseFloat_value:
  assumes "decimal_value str = Some q" and "0 \<le> q" and "q < 2 ^ 1023"
  shows "ParseFloat str = Inr (round_to_float64 q)"
  using assms round_to_float64_bound [OF assms(2,3)]
  by (simp add: ParseFloat_def Let_def)

text \<open>
  The tail shared by the two conversions, for a scale \<open>10^k\<close>: the string that it builds
  denotes \<open>whole + decimal / 10^k\<close> exactly.
\<close>

lemma formatScaledAsFloat_pow10:
  assumes "0 \<le> whole" and "0 \<le> decimal" and "decimal < 10 ^ k" and "0 < k"
    and "real_of_int whole + real_of_int decimal / 10 ^ k < 2 ^ 1023"
  shows "formatScaledAsFloat whole decimal (10 ^ k) =
    Some (Inr (round_to_float64 (real_of_int whole + real_of_int decimal / 10 ^ k)))"
proof -
  define W where "W = nat whole"
  define D where "D = nat decimal"
  have W: "whole = int W" and D: "decimal = int D"
    using assms by (simp_all add: W_def D_def)
  have Dk: "D < 10 ^ k" using assms(3) by (simp add: D)
  have nd: "num_digits D \<le> k" using Dk by (rule num_digits_le)
  have g1: "getNumDigits (10 ^ k) = Some (Suc k)"
    by (simp add: getNumDigits_nonneg nat_power_eq num_digits_pow10)
  have g2: "getNumDigits (int D) = Some (num_digits D)"
    by (simp add: getNumDigits_nonneg)
  have z: "int (Suc k) - int (num_digits D) - 1 = int (k - num_digits D)"
    using nd by simp
  define fr where "fr = replicate (k - num_digits D) CHR ''0'' @ fmt_d D"
  have fr: "list_all is_digit fr" "digits_val fr = D"
    by (simp_all add: fr_def list_all_zeros list_all_is_digit_fmt_d digits_val_append
        digits_val_zeros digits_val_fmt_d)
  have len: "real D / 10 ^ length fr = real D / 10 ^ k"
  proof (cases "D = 0")
    case True
    then show ?thesis by simp
  next
    case False
    with nd have "length fr = k" by (simp add: fr_def length_fmt_d)
    then show ?thesis by simp
  qed
  have str: "formatScaledAsFloat whole decimal (10 ^ k) =
      Some (ParseFloat (fmt_d W @ CHR ''.'' # fr))"
    by (simp add: formatScaledAsFloat_def g1 g2 z fmt_d_int_def W D fr_def Let_def
        del: of_nat_Suc)
  have "decimal_value (fmt_d W @ CHR ''.'' # fr) = Some (real W + real D / 10 ^ length fr)"
    by (simp add: decimal_value_point [OF list_all_is_digit_fmt_d fmt_d_not_Nil fr(1)]
        digits_val_fmt_d fr(2))
  then have dv: "decimal_value (fmt_d W @ CHR ''.'' # fr) = Some (real W + real D / 10 ^ k)"
    by (simp only: len)
  have "ParseFloat (fmt_d W @ CHR ''.'' # fr) = Inr (round_to_float64 (real W + real D / 10 ^ k))"
    using dv
  proof (rule ParseFloat_value)
    show "0 \<le> real W + real D / 10 ^ k" by simp
    show "real W + real D / 10 ^ k < 2 ^ 1023" using assms(5) by (simp add: W D)
  qed
  with str show ?thesis by (simp add: W D)
qed

lemma formatScaledAsFloat_div_mod:
  assumes "0 \<le> X" and "0 < k" and "real_of_int X / 10 ^ k < 2 ^ 1023"
  shows "formatScaledAsFloat (X div 10 ^ k) (X mod 10 ^ k) (10 ^ k) =
    Some (Inr (round_to_float64 (real_of_int X / 10 ^ k)))"
proof -
  have "real_of_int (X div 10 ^ k) * 10 ^ k + real_of_int (X mod 10 ^ k) =
      real_of_int (X div 10 ^ k * 10 ^ k + X mod 10 ^ k)" by simp
  also have "\<dots> = real_of_int X" by (simp only: div_mult_mod_eq)
  finally have e: "real_of_int X / 10 ^ k =
      real_of_int (X div 10 ^ k) + real_of_int (X mod 10 ^ k) / 10 ^ k"
    by (simp add: field_simps)
  show ?thesis
    unfolding e
  proof (rule formatScaledAsFloat_pow10)
    show "0 \<le> X div 10 ^ k" using assms(1) by (simp add: pos_imp_zdiv_nonneg_iff)
    show "0 \<le> X mod 10 ^ k" by simp
    show "X mod 10 ^ k < 10 ^ k" by simp
    show "0 < k" by (rule assms(2))
    show "real_of_int (X div 10 ^ k) + real_of_int (X mod 10 ^ k) / 10 ^ k < 2 ^ 1023"
      using assms(3) by (simp only: e)
  qed
qed

section \<open>The conversions back to a float, in closed form\<close>

lemma uint_OneE38: "uint OneE38 = 10 ^ 38"
  by (simp add: OneE38_def)

lemma uint_scaling_factor: "uint getDESOToDAOCoinBaseUnitsScalingFactor = 10 ^ 9"
  by (simp add: scale_consts)

lemma rescaled_bound:
  assumes "0 \<le> U" and "U < 2 ^ 256" and "0 \<le> X" and "X \<le> U * 10 ^ 9"
  shows "real_of_int X / 10 ^ 38 < 2 ^ 1023"
proof -
  from assms(4) have "real_of_int X \<le> real_of_int (U * 10 ^ 9)" by (simp only: of_int_le_iff)
  also have "\<dots> = real_of_int U * 10 ^ 9" by simp
  also have "\<dots> < real_of_int (2 ^ 256) * 10 ^ 9"
  proof -
    from assms(2) have "real_of_int U < real_of_int (2 ^ 256)" by (simp only: of_int_less_iff)
    then show ?thesis by (rule mult_strict_right_mono) simp
  qed
  finally have "real_of_int X / 10 ^ 38 < real_of_int (2 ^ 256) * 10 ^ 9 / 10 ^ 38"
    by (simp add: divide_strict_right_mono)
  also have "\<dots> < (2::real) ^ 1023" by simp
  finally show ?thesis .
qed

lemma CalculateExchangeRateAsFloat_value:
  "CalculateExchangeRateAsFloat buy sell v =
     Some (Inr (round_to_float64
       (real_of_int (if buy = '''' then uint v div 10 ^ 9
                     else if sell = '''' then uint v * 10 ^ 9 else uint v) / 10 ^ 38)))"
proof -
  define U where "U = uint v"
  define X where "X = (if buy = '''' then U div 10 ^ 9
                       else if sell = '''' then U * 10 ^ 9 else U)"
  have U: "0 \<le> U" "U < 2 ^ 256"
    using uint_lt2p [of v] by (simp_all add: U_def)
  have nn: "0 \<le> X" using U(1) by (simp add: X_def pos_imp_zdiv_nonneg_iff)
  have "U div 10 ^ 9 \<le> U"
  proof (cases "U = 0")
    case True
    then show ?thesis by simp
  next
    case False
    with U(1) have "0 < U" by simp
    then show ?thesis by (rule int_div_le_self)
  qed
  moreover have "U \<le> U * 10 ^ 9" using U(1) by (simp add: mult_le_cancel_left1)
  ultimately have le: "X \<le> U * 10 ^ 9" by (simp add: X_def)
  have b: "real_of_int X / 10 ^ 38 < 2 ^ 1023"
    using U nn le by (rule rescaled_bound)
  have "CalculateExchangeRateAsFloat buy sell v =
      formatScaledAsFloat (X div 10 ^ 38) (X mod 10 ^ 38) (10 ^ 38)"
    by (simp add: CalculateExchangeRateAsFloat_def X_def U_def uint_OneE38 uint_scaling_factor
        Let_def)
  also have "\<dots> = Some (Inr (round_to_float64 (real_of_int X / 10 ^ 38)))"
    using nn _ b by (rule formatScaledAsFloat_div_mod) simp
  finally show ?thesis by (simp only: X_def U_def)
qed

lemma calculateQuantityToFillAsFloatWithScalingFactor_pow10:
  assumes "uint scale = 10 ^ k" and "0 < k"
  shows "calculateQuantityToFillAsFloatWithScalingFactor q scale =
     Some (Inr (round_to_float64 (real_of_int (uint q) / 10 ^ k)))"
proof -
  define U where "U = uint q"
  have U: "0 \<le> U" "U < 2 ^ 256"
    using uint_lt2p [of q] by (simp_all add: U_def)
  from assms(1) have nz: "scale \<noteq> 0" by auto
  have "real_of_int U / 10 ^ k \<le> real_of_int U / 1"
    using U(1) by (intro frac_le) simp_all
  also have "\<dots> = real_of_int U" by simp
  also have "\<dots> < real_of_int (2 ^ 256)" using U(2) by (simp only: of_int_less_iff)
  also have "\<dots> < (2::real) ^ 1023" by simp
  finally have b: "real_of_int U / 10 ^ k < 2 ^ 1023" .
  have "calculateQuantityToFillAsFloatWithScalingFactor q scale =
      formatScaledAsFloat (U div 10 ^ k) (U mod 10 ^ k) (10 ^ k)"
    using nz
    by (simp add: calculateQuantityToFillAsFloatWithScalingFactor_def uint256_Div_def
        uint256_Mod_def uint_div uint_mod assms(1) U_def Let_def)
  also have "\<dots> = Some (Inr (round_to_float64 (real_of_int U / 10 ^ k)))"
    using U(1) assms(2) b by (rule formatScaledAsFloat_div_mod)
  finally show ?thesis by (simp only: U_def)
qed

lemma CalculateQuantityToFillAsFloat_value:
  "CalculateQuantityToFillAsFloat buy sell opr q =
     Some (Inr (round_to_float64
       (real_of_int (uint q) / (if isCoinToFillDESO buy sell opr then 10 ^ 9 else 10 ^ 18))))"
proof -
  have a: "uint (ucast NanosPerUnit :: uint256) = 10 ^ 9"
    by (simp add: NanosPerUnit_def)
  have b: "uint BaseUnitsPerCoin = 10 ^ 18"
    by (simp add: BaseUnitsPerCoin_def)
  show ?thesis
    by (simp add: CalculateQuantityToFillAsFloat_def calculateQuantityToFillFromDESONanosToFloat_def
        calculateQuantityToFillFromDAOCoinBaseUnitsToFloat_def
        calculateQuantityToFillAsFloatWithScalingFactor_pow10 [OF a]
        calculateQuantityToFillAsFloatWithScalingFactor_pow10 [OF b])
qed

section \<open>Conversions that do not come back, round up, or are accepted beyond \<open>10^38\<close>\<close>

lemma float64_1e23: "round_to_float64 (10 ^ 23) = 99999999999999991611392"
  by (simp add: round_to_float64_eval)

lemma format_1e23:
  "formatFloatAsString 99999999999999991611392 = Some ''99999999999999900000000.0''"
  by (rule formatFloatAsString_largeI(1) [where s = "''99999999999999991611392''"])
    (simp_all add: digits_eval replicate_numeral)

lemma rate_1e23:
  "CalculateScaledExchangeRate ''TestDAOCoinPubKey'' ''TestDAOCoinPubKey'' 99999999999999991611392 =
     Some (Inr 9999999999999990000000000000000000000000000000000000000000000)"
  by (simp add: CalculateScaledExchangeRate_def format_1e23 parse_eval scale_consts)

lemma float_of_rate_1e23:
  "CalculateExchangeRateAsFloat ''TestDAOCoinPubKey'' ''TestDAOCoinPubKey''
     9999999999999990000000000000000000000000000000000000000000000 =
     Some (Inr 99999999999999907725312)"
  by (simp add: CalculateExchangeRateAsFloat_value round_to_float64_eval)

lemma format_2p127:
  "formatFloatAsString 170141183460469231731687303715884105728 =
     Some ''170141183460469000000000000000000000000.0''"
  by (rule formatFloatAsString_largeI(1) [where s = "''170141183460469231731687303715884105728''"])
    (simp_all add: digits_eval replicate_numeral)

lemma rate_2p127:
  "CalculateScaledExchangeRate ''TestDAOCoinPubKey'' ''TestDAOCoinPubKey''
     170141183460469231731687303715884105728 =
     Some (Inr 17014118346046900000000000000000000000000000000000000000000000000000000000000)"
  by (simp add: CalculateScaledExchangeRate_def format_2p127 parse_eval scale_consts)

lemma float64_2p127:
  "round_to_float64 170141183460469231731687303715884105728 =
     170141183460469231731687303715884105728"
  by (simp add: round_to_float64_eval)

lemma float64_1e_16:
  "round_to_float64 (1 / 10 ^ 16) = 2028240960365167 / 20282409603651670423947251286016"
  by (simp add: round_to_float64_eval)

lemma format_1e_16:
  "formatFloatAsString (2028240960365167 / 20282409603651670423947251286016) =
     Some ''0.000000000000000''"
  by (simp add: formatFloatAsString_nonneg num_digits_eval fmt_f_def round_half_even_def fmt_d_eval)

lemma rate_1e_16:
  "CalculateScaledExchangeRate ''TestDAOCoinPubKey'' ''TestDAOCoinPubKey''
     (2028240960365167 / 20282409603651670423947251286016) = Some (Inl RangeError)"
  by (simp add: CalculateScaledExchangeRate_def format_1e_16 parse_eval scale_consts)

lemma rate_string_1e38:
  "CalculateScaledExchangeRateFromString ''100000000000000000000000000000000000000'' =
     Inr 10000000000000000000000000000000000000000000000000000000000000000000000000000"
  by (simp add: parse_eval scale_consts)

lemma format_rounds_up:
  "formatFloatAsString (9007199254740991 / 9007199254740992) = Some ''1.000000000000000''"
  by (simp add: formatFloatAsString_nonneg num_digits_eval fmt_f_def round_half_even_def fmt_d_eval)

lemma float64_16_nines:
  "round_to_float64 (9999999999999999 / 10 ^ 16) = 9007199254740991 / 9007199254740992"
  by (simp add: round_to_float64_eval)

lemma float_of_rate_rounds_up:
  "CalculateExchangeRateAsFloat ''TestDAOCoinPubKey'' ''TestDAOCoinPubKey''
     199999999999999999999999999999999999999 = Some (Inr 2)"
  by (simp add: CalculateExchangeRateAsFloat_value round_to_float64_eval)

lemma float_of_rate_third:
  "CalculateExchangeRateAsFloat ''TestDAOCoinPubKey'' ''TestDAOCoinPubKey''
     33333333333333333333333333333333333333 = Some (Inr (6004799503160661 / 18014398509481984))"
  by (simp add: CalculateExchangeRateAsFloat_value round_to_float64_eval)

lemma float64_third_15_digits:
  "round_to_float64 (333333333333333 / 10 ^ 15) < 6004799503160661 / 18014398509481984"
  "6004799503160661 / 18014398509481984 < round_to_float64 (333333333333334 / 10 ^ 15)"
  by (simp_all add: round_to_float64_eval)

lemma rendered_1: "rendered 1 = 1"
  by (simp add: rendered_def num_digits_eval round_half_even_def)

lemma float64_1: "round_to_float64 1 = 1"
  by (simp add: round_to_float64_eval)

lemma rate_1_DAO:
  "CalculateScaledExchangeRate ''TestDAOCoinPubKey'' ''TestDAOCoinPubKey'' 1 =
     Some (Inr 100000000000000000000000000000000000000)"
  by (simp add: CalculateScaledExchangeRate_def formatFloatAsString_1 parse_eval scale_consts)

text \<open>
  Converting a float to the canonical rate and back gives the double nearest to the
  decimal that \<^verbatim>\<open>formatFloatAsString\<close> prints for it.
\<close>

lemma rate_round_trip:
  assumes "0 \<le> p" and "CalculateScaledExchangeRate buy sell p = Some (Inr r)"
  shows "CalculateExchangeRateAsFloat buy sell r = Some (Inr (round_to_float64 (rendered p)))"
proof -
  define X where "X = rawScaledRate p"
  from assms(2) obtain raw where raw: "checked_uint256 X = Inr raw"
    and r: "(if buy = '''' then
               (if 2 ^ 256 \<le> unat raw * 10 ^ 9 then Inl OverflowError
                else Inr (raw * 1000000000))
             else if sell = '''' then
               (if raw div 1000000000 = 0 then Inl RangeError else Inr (raw div 1000000000))
             else Inr raw) = Inr r"
    by (auto simp: CalculateScaledExchangeRate_nonneg [OF assms(1)] X_def split: sum.splits)
  from raw have X: "0 < X" "X < 2 ^ 256" and "raw = word_of_nat X"
    by (simp_all add: checked_uint256_Inr)
  then have u: "unat raw = X" by (simp add: unat_word_of_nat_256)
  have dvd: "10 ^ 9 dvd X"
  proof -
    have "(10::nat) ^ 9 dvd 10 ^ 23" by (rule le_imp_power_dvd) simp
    also have "10 ^ 23 dvd X" unfolding X_def by (rule rawScaledRate_exact(2) [OF assms(1)])
    finally show ?thesis .
  qed
  have rescaled: "(if buy = '''' then uint r div 10 ^ 9
               else if sell = '''' then uint r * 10 ^ 9 else uint r) = int X"
  proof (cases "buy = ''''")
    case True
    with r have no: "unat raw * 10 ^ 9 < 2 ^ 256" and rr: "r = raw * 1000000000"
      by (simp_all split: if_splits)
    have "unat raw * unat (1000000000 :: uint256) < 2 ^ LENGTH(256)"
      using no by simp
    then have "unat (raw * 1000000000) = unat raw * unat (1000000000 :: uint256)"
      by (simp only: unat_mult_lem)
    then have "unat r = X * 10 ^ 9" by (simp add: rr u)
    then have "uint r = int X * 10 ^ 9" by (simp add: uint_nat)
    with True show ?thesis by simp
  next
    case False
    show ?thesis
    proof (cases "sell = ''''")
      case True
      with False r have rr: "r = raw div 1000000000" by (simp split: if_splits)
      have "unat r = X div 10 ^ 9" by (simp add: rr unat_div u)
      then have "uint r = int (X div 10 ^ 9)" by (simp only: uint_nat)
      moreover have "X div 10 ^ 9 * 10 ^ 9 = X" using dvd by (rule dvd_div_mult_self)
      ultimately have "uint r * 10 ^ 9 = int X"
        by (metis of_nat_mult of_nat_numeral of_nat_power)
      with False True show ?thesis by simp
    next
      case sell: False
      with False r have "r = raw" by simp
      with False sell show ?thesis by (simp add: uint_nat u)
    qed
  qed
  have "real_of_int (int X) / 10 ^ 38 = rendered p"
    using rawScaledRate_exact(1) [OF assms(1)] by (simp add: X_def)
  then show ?thesis
    by (simp only: CalculateExchangeRateAsFloat_value rescaled)
qed

lemma rendered_large:
  assumes "0 \<le> f" and "15 < num_digits (nat \<lfloor>f\<rfloor>)"
  shows "rendered f = of_int (\<lfloor>f\<rfloor> div 10 ^ (num_digits (nat \<lfloor>f\<rfloor>) - 15) *
      10 ^ (num_digits (nat \<lfloor>f\<rfloor>) - 15))"
    and "rendered f \<le> f"
proof -
  define k where "k = num_digits (nat \<lfloor>f\<rfloor>) - 15"
  show r: "rendered f = of_int (\<lfloor>f\<rfloor> div 10 ^ (num_digits (nat \<lfloor>f\<rfloor>) - 15) *
      10 ^ (num_digits (nat \<lfloor>f\<rfloor>) - 15))"
    using assms(2) by (simp add: rendered_def)
  have "\<lfloor>f\<rfloor> div 10 ^ k * 10 ^ k + \<lfloor>f\<rfloor> mod 10 ^ k = \<lfloor>f\<rfloor>" by (rule div_mult_mod_eq)
  moreover have "0 \<le> \<lfloor>f\<rfloor> mod 10 ^ k" by simp
  ultimately have "\<lfloor>f\<rfloor> div 10 ^ k * 10 ^ k \<le> \<lfloor>f\<rfloor>" by linarith
  then have "real_of_int (\<lfloor>f\<rfloor> div 10 ^ k * 10 ^ k) \<le> real_of_int \<lfloor>f\<rfloor>"
    by (simp only: of_int_le_iff)
  also have "\<dots> \<le> f" by (rule of_int_floor_le)
  finally show "rendered f \<le> f" by (simp only: r k_def)
qed

lemma rendered_small:
  assumes "num_digits (nat \<lfloor>f\<rfloor>) \<le> 15"
  shows "\<bar>rendered f - f\<bar> \<le> 1 / (2 * 10 ^ (15 - num_digits (nat \<lfloor>f\<rfloor>)))"
proof -
  define N where "N = 15 - num_digits (nat \<lfloor>f\<rfloor>)"
  define m where "m = round_half_even (f * 10 ^ N)"
  have r: "rendered f = real_of_int m / 10 ^ N"
    using assms by (simp add: rendered_def N_def m_def)
  have "rendered f - f = (real_of_int m - f * 10 ^ N) / 10 ^ N"
    by (simp add: r field_simps)
  then have "\<bar>rendered f - f\<bar> = \<bar>real_of_int m - f * 10 ^ N\<bar> / 10 ^ N"
    by (simp add: abs_divide)
  also have "\<dots> \<le> (1 / 2) / 10 ^ N"
    using round_half_even_near [of "f * 10 ^ N"]
    by (intro divide_right_mono) (simp_all add: m_def)
  finally show ?thesis by (simp add: N_def)
qed

lemma round_to_float64_near:
  "\<bar>round_to_float64 x - x\<bar> \<le> pow2 (max (floor_log2 \<bar>x\<bar> - 52) (- 1074)) / 2"
proof (cases "x = 0")
  case True
  then show ?thesis using pow2_pos [of "max (floor_log2 \<bar>x\<bar> - 52) (- 1074)"]
    by (simp add: round_to_float64_0)
next
  case False
  define e where "e = max (floor_log2 \<bar>x\<bar> - 52) (- 1074)"
  define m where "m = round_half_even (\<bar>x\<bar> / pow2 e)"
  have p: "0 < pow2 e" by (rule pow2_pos)
  have r: "round_to_float64 x = sgn x * (real_of_int m * pow2 e)"
    using False by (simp add: round_to_float64_def e_def m_def Let_def)
  have x: "x = sgn x * \<bar>x\<bar>" by (simp add: mult_sgn_abs)
  have "round_to_float64 x - x = sgn x * (real_of_int m * pow2 e - \<bar>x\<bar>)"
    by (subst (2) x) (simp add: r right_diff_distrib)
  then have "\<bar>round_to_float64 x - x\<bar> = \<bar>real_of_int m * pow2 e - \<bar>x\<bar>\<bar>"
    using False by (simp add: abs_mult abs_sgn_eq)
  also have "real_of_int m * pow2 e - \<bar>x\<bar> = (real_of_int m - \<bar>x\<bar> / pow2 e) * pow2 e"
    using p by (simp add: field_simps)
  also have "\<bar>\<dots>\<bar> = \<bar>real_of_int m - \<bar>x\<bar> / pow2 e\<bar> * pow2 e"
    using p by (simp add: abs_mult)
  also have "\<dots> \<le> (1 / 2) * pow2 e"
    using round_half_even_near [of "\<bar>x\<bar> / pow2 e"] p
    by (intro mult_right_mono) (simp_all add: m_def)
  finally show ?thesis by (simp add: e_def)
qed

section \<open>The floats that the rate conversion accepts\<close>

lemma round_half_even_zero: "0 \<le> x \<Longrightarrow> x \<le> 1 / 2 \<Longrightarrow> round_half_even x = 0"
proof -
  assume x: "0 \<le> x" "x \<le> 1 / 2"
  then have "\<lfloor>x\<rfloor> = 0" by (simp add: floor_eq_iff)
  with x show ?thesis by (simp add: round_half_even_def)
qed

lemma round_half_even_pos: "1 / 2 < x \<Longrightarrow> 1 \<le> round_half_even x"
proof -
  assume "1 / 2 < x"
  with round_half_even_near [of x] have "0 < real_of_int (round_half_even x)" by linarith
  then show ?thesis by simp
qed

lemma num_digits_gt: "10 ^ k \<le> n \<Longrightarrow> k < num_digits n"
proof -
  assume le: "10 ^ k \<le> n"
  then have "0 < n" by (metis zero_less_numeral zero_less_power less_le_trans)
  then have "n < 10 ^ num_digits n" using num_digits_bounds [of n] by simp
  with le have "(10::nat) ^ k < 10 ^ num_digits n" by (rule le_less_trans)
  then show ?thesis by simp
qed

lemma num_digits_zero_iff: "num_digits n = 0 \<longleftrightarrow> n = 0"
  by (subst num_digits.simps) simp

text \<open>The raw scaled rate is zero exactly for the floats up to \<open>5 * 10^-16\<close>.\<close>

lemma rawScaledRate_zero_iff:
  assumes "0 \<le> p"
  shows "rawScaledRate p = 0 \<longleftrightarrow> p \<le> 1 / (2 * 10 ^ 15)"
proof -
  define n where "n = nat \<lfloor>p\<rfloor>"
  define d where "d = num_digits n"
  have n: "\<lfloor>p\<rfloor> = int n" using assms by (simp add: n_def)
  have raw: "rawScaledRate p = 0 \<longleftrightarrow> rendered p = 0"
  proof -
    have "real (rawScaledRate p) = 0 \<longleftrightarrow> rendered p = 0"
      by (simp add: rawScaledRate_exact(1) [OF assms])
    then show ?thesis by simp
  qed
  show ?thesis
  proof (cases "p \<le> 1 / (2 * 10 ^ 15)")
    case True
    then have "p < 1" by simp
    with assms have "\<lfloor>p\<rfloor> = 0" by (simp add: floor_eq_iff)
    then have d0: "num_digits (nat \<lfloor>p\<rfloor>) = 0" by (simp add: num_digits_0)
    from True have "p * 10 ^ 15 \<le> 1 / 2" by (simp add: field_simps)
    with assms have "round_half_even (p * 10 ^ 15) = 0" by (intro round_half_even_zero) simp_all
    then have "rendered p = 0" by (simp add: rendered_def d0)
    with True raw show ?thesis by simp
  next
    case False
    then have big: "1 / (2 * 10 ^ 15) < p" by simp
    have "0 < rendered p"
    proof (cases "d \<le> 15")
      case True
      have "1 / 2 < p * 10 ^ (15 - d)"
      proof (cases "d = 0")
        case True
        with big show ?thesis by (simp add: field_simps)
      next
        case False
        then have "n \<noteq> 0" by (simp add: d_def num_digits_zero_iff)
        then have "1 \<le> \<lfloor>p\<rfloor>" by (simp add: n)
        then have "1 \<le> p" by linarith
        moreover have "(1::real) \<le> 10 ^ (15 - d)" by simp
        ultimately have "1 * 1 \<le> p * 10 ^ (15 - d)" by (intro mult_mono) simp_all
        then show ?thesis by simp
      qed
      then have "1 \<le> round_half_even (p * 10 ^ (15 - d))" by (rule round_half_even_pos)
      then have "0 < real_of_int (round_half_even (p * 10 ^ (15 - d)))" by simp
      then show ?thesis
        using True by (simp add: rendered_def n_def [symmetric] d_def [symmetric])
    next
      case False
      define k where "k = d - 15"
      from False have dk: "d - 1 = 14 + k" by (simp add: k_def)
      have "0 < n"
        using False by (cases "n = 0") (simp_all add: d_def num_digits_0)
      from num_digits_bounds [OF this] have "10 ^ (d - 1) \<le> n" by (simp add: d_def)
      then have "10 ^ 14 * 10 ^ k \<le> n" by (simp only: dk power_add)
      then have "10 ^ 14 * 10 ^ k div 10 ^ k \<le> n div 10 ^ k" by (rule div_le_mono)
      then have "10 ^ 14 \<le> n div 10 ^ k" by simp
      then have "0 < n div 10 ^ k * 10 ^ k" by simp
      then have "0 < real (n div 10 ^ k * 10 ^ k)" by (simp only: of_nat_0_less_iff)
      moreover have "\<lfloor>p\<rfloor> div 10 ^ k * 10 ^ k = int (n div 10 ^ k * 10 ^ k)"
        by (simp add: n zdiv_int)
      then have "rendered p = real (n div 10 ^ k * 10 ^ k)"
        using False by (simp add: rendered_def n_def [symmetric] d_def [symmetric] k_def)
      ultimately show ?thesis by simp
    qed
    with False raw show ?thesis by simp
  qed
qed

text \<open>
  The raw scaled rate does not fit 256 bits exactly for the floats from
  \<open>115792089237317 * 10^25\<close> on.
\<close>

lemma rawScaledRate_overflow_iff:
  assumes "0 \<le> p"
  shows "2 ^ 256 \<le> rawScaledRate p \<longleftrightarrow> 115792089237317 * 10 ^ 25 \<le> p"
proof -
  define n where "n = nat \<lfloor>p\<rfloor>"
  define d where "d = num_digits n"
  have n: "\<lfloor>p\<rfloor> = int n" using assms by (simp add: n_def)
  have raw: "2 ^ 256 \<le> rawScaledRate p \<longleftrightarrow> 2 ^ 256 \<le> rendered p * 10 ^ 38"
  proof -
    have "real (2 ^ 256) \<le> real (rawScaledRate p) \<longleftrightarrow> 2 ^ 256 \<le> rendered p * 10 ^ 38"
      by (simp add: rawScaledRate_exact(1) [OF assms])
    then show ?thesis by (simp only: of_nat_le_iff)
  qed
  have T: "rendered p = real (n div 10 ^ (d - 15) * 10 ^ (d - 15))" if "15 < d"
  proof -
    have "\<lfloor>p\<rfloor> div 10 ^ (d - 15) * 10 ^ (d - 15) = int (n div 10 ^ (d - 15) * 10 ^ (d - 15))"
      by (simp add: n zdiv_int)
    then have "real_of_int (\<lfloor>p\<rfloor> div 10 ^ (d - 15) * 10 ^ (d - 15)) =
        real (n div 10 ^ (d - 15) * 10 ^ (d - 15))"
      by (simp only: of_int_of_nat_eq)
    moreover have "rendered p = real_of_int (\<lfloor>p\<rfloor> div 10 ^ (d - 15) * 10 ^ (d - 15))"
      using that rendered_large(1) [OF assms] by (simp add: n_def [symmetric] d_def [symmetric])
    ultimately show ?thesis by simp
  qed
  show ?thesis
  proof (cases "115792089237317 * 10 ^ 25 \<le> p")
    case True
    then have "real_of_int (115792089237317 * 10 ^ 25) \<le> p" by simp
    then have "115792089237317 * 10 ^ 25 \<le> \<lfloor>p\<rfloor>" by (simp only: le_floor_iff)
    then have B: "115792089237317 * 10 ^ 25 \<le> n" by (simp add: n)
    then have "10 ^ 39 \<le> n" by simp
    then have d40: "39 < d" unfolding d_def by (rule num_digits_gt)
    define k where "k = d - 15"
    have k: "25 \<le> k" and dk: "d - 1 = 14 + k" using d40 by (simp_all add: k_def)
    have "115792089237317 * 10 ^ 25 \<le> n div 10 ^ k * 10 ^ k"
    proof (cases "k = 25")
      case True
      from B have "115792089237317 * 10 ^ 25 div 10 ^ 25 \<le> n div 10 ^ 25" by (rule div_le_mono)
      then have "115792089237317 \<le> n div 10 ^ 25" by simp
      then have "115792089237317 * 10 ^ 25 \<le> n div 10 ^ 25 * 10 ^ 25" by (rule mult_le_mono1)
      with True show ?thesis by simp
    next
      case False
      with k have k26: "26 \<le> k" by simp
      have "0 < n" using B by simp
      from num_digits_bounds [OF this] have "10 ^ (d - 1) \<le> n" by (simp add: d_def)
      then have "10 ^ 14 * 10 ^ k \<le> n" by (simp only: dk power_add)
      then have "10 ^ 14 * 10 ^ k div 10 ^ k \<le> n div 10 ^ k" by (rule div_le_mono)
      then have "10 ^ 14 \<le> n div 10 ^ k" by simp
      then have "10 ^ 14 * 10 ^ k \<le> n div 10 ^ k * 10 ^ k" by (rule mult_le_mono1)
      moreover have "(10::nat) ^ 26 \<le> 10 ^ k" using k26 by (rule power_increasing) simp
      then have "(10::nat) ^ 14 * 10 ^ 26 \<le> 10 ^ 14 * 10 ^ k" by (rule mult_le_mono2)
      moreover have "115792089237317 * 10 ^ 25 \<le> (10::nat) ^ 14 * 10 ^ 26" by simp
      ultimately show ?thesis by linarith
    qed
    then have "real (115792089237317 * 10 ^ 25) \<le> real (n div 10 ^ k * 10 ^ k)"
      by (simp only: of_nat_le_iff)
    then have "real (115792089237317 * 10 ^ 25) \<le> rendered p"
      using d40 by (simp add: T k_def)
    then have "real (115792089237317 * 10 ^ 25) * 10 ^ 38 \<le> rendered p * 10 ^ 38"
      by (rule mult_right_mono) simp
    moreover have "(2::real) ^ 256 \<le> real (115792089237317 * 10 ^ 25) * 10 ^ 38" by simp
    ultimately have "2 ^ 256 \<le> rendered p * 10 ^ 38" by linarith
    with True raw show ?thesis by simp
  next
    case False
    then have pB: "p < 115792089237317 * 10 ^ 25" by simp
    have "real_of_int \<lfloor>p\<rfloor> \<le> p" by (rule of_int_floor_le)
    with pB have "real_of_int \<lfloor>p\<rfloor> < real_of_int (115792089237317 * 10 ^ 25)" by simp
    then have "\<lfloor>p\<rfloor> < 115792089237317 * 10 ^ 25" by (simp only: of_int_less_iff)
    then have nB: "n < 115792089237317 * 10 ^ 25" by (simp add: n)
    have "rendered p * 10 ^ 38 < 2 ^ 256"
    proof (cases "d \<le> 15")
      case True
      have "n < 10 ^ 15"
      proof (rule ccontr)
        assume "\<not> n < 10 ^ 15"
        then have "10 ^ 15 \<le> n" by simp
        then have "15 < num_digits n" by (rule num_digits_gt)
        with True show False by (simp add: d_def)
      qed
      then have "\<lfloor>p\<rfloor> < 10 ^ 15" by (simp add: n)
      then have p15: "p < 10 ^ 15" by (simp add: floor_less_iff)
      have "\<bar>rendered p - p\<bar> \<le> 1 / (2 * 10 ^ (15 - d))"
        using True rendered_small [of p] by (simp add: d_def n_def)
      also have "\<dots> \<le> 1 / 2"
        by (simp add: divide_le_eq_1)
      finally have "rendered p \<le> p + 1 / 2" by linarith
      with p15 have "rendered p < 10 ^ 15 + 1" by simp
      then have "rendered p * 10 ^ 38 < (10 ^ 15 + 1) * 10 ^ 38"
        by (rule mult_strict_right_mono) simp
      also have "\<dots> < (2::real) ^ 256" by simp
      finally show ?thesis .
    next
      case False
      then have d15: "15 < d" by simp
      define k where "k = d - 15"
      have le: "n div 10 ^ k * 10 ^ k \<le> n" by (simp add: div_times_less_eq_dividend)
      have "d \<le> 40"
      proof -
        have "n < 10 ^ 40" using nB by simp
        then show ?thesis unfolding d_def by (rule num_digits_le)
      qed
      then have k25: "k \<le> 25" by (simp add: k_def)
      have "n div 10 ^ k * 10 ^ k \<le> 115792089237316 * 10 ^ 25"
      proof (cases "k = 25")
        case True
        from nB have "n div 10 ^ 25 < 115792089237317"
          by (simp add: div_less_iff_less_mult)
        then have "n div 10 ^ 25 \<le> 115792089237316" by simp
        then have "n div 10 ^ 25 * 10 ^ 25 \<le> 115792089237316 * 10 ^ 25" by (rule mult_le_mono1)
        with True show ?thesis by simp
      next
        case False
        with k25 have "d \<le> 39" using d15 by (simp add: k_def)
        have "0 < n" using d15 by (cases "n = 0") (simp_all add: d_def num_digits_0)
        from num_digits_bounds [OF this] have "n < 10 ^ d" by (simp add: d_def)
        also have "(10::nat) ^ d \<le> 10 ^ 39" using \<open>d \<le> 39\<close> by (rule power_increasing) simp
        finally have "n < 10 ^ 39" .
        also have "(10::nat) ^ 39 \<le> 115792089237316 * 10 ^ 25" by simp
        finally have "n \<le> 115792089237316 * 10 ^ 25" by simp
        with le show ?thesis by (rule order_trans)
      qed
      then have "real (n div 10 ^ k * 10 ^ k) \<le> real (115792089237316 * 10 ^ 25)"
        by (simp only: of_nat_le_iff)
      then have "rendered p \<le> real (115792089237316 * 10 ^ 25)"
        using d15 by (simp add: T k_def)
      then have "rendered p * 10 ^ 38 \<le> real (115792089237316 * 10 ^ 25) * 10 ^ 38"
        by (rule mult_right_mono) simp
      also have "\<dots> < (2::real) ^ 256" by simp
      finally show ?thesis .
    qed
    with False raw show ?thesis by simp
  qed
qed

text \<open>
  Scaling a decimal string gives the integer part of its value times the factor: digits
  below the resolution are dropped.
\<close>

lemma Scale_decimal_value:
  assumes "decimal_value s = Some D"
  shows "ScaleFloatFormatStringToUint256 s F = checked_uint256 (nat \<lfloor>D * real (unat F)\<rfloor>)"
proof -
  define w where "w = takeWhile (\<lambda>c. c \<noteq> CHR ''.'') s"
  define fr where "fr = tl (dropWhile (\<lambda>c. c \<noteq> CHR ''.'') s)"
  from assms have ok: "s \<noteq> []" "\<not> (w = [] \<and> fr = [])" "list_all is_digit w" "list_all is_digit fr"
    and D: "D = real (digits_val w) + real (digits_val fr) / 10 ^ length fr"
    by (auto simp: decimal_value_def w_def fr_def Let_def split: if_splits)
  have "D * real (unat F) =
      real (digits_val w * unat F) + real (digits_val fr * unat F) / real (10 ^ length fr)"
    by (simp add: D field_simps)
  moreover have "\<lfloor>real_of_int (int (digits_val w * unat F)) +
        real (digits_val fr * unat F) / real (10 ^ length fr)\<rfloor> =
      int (digits_val w * unat F) + \<lfloor>real (digits_val fr * unat F) / real (10 ^ length fr)\<rfloor>"
    by (rule int_add_floor [symmetric])
  ultimately have "\<lfloor>D * real (unat F)\<rfloor> =
      int (digits_val w * unat F) + \<lfloor>real (digits_val fr * unat F) / real (10 ^ length fr)\<rfloor>"
    by (simp only: of_int_of_nat_eq)
  also have "\<dots> = int (digits_val w * unat F + digits_val fr * unat F div 10 ^ length fr)"
    by (simp only: floor_divide_of_nat_eq of_nat_add)
  finally have "nat \<lfloor>D * real (unat F)\<rfloor> =
      digits_val w * unat F + digits_val fr * unat F div 10 ^ length fr"
    by (simp only: nat_int)
  moreover have "ScaleFloatFormatStringToUint256 s F =
      checked_uint256 (digits_val w * unat F + digits_val fr * unat F div 10 ^ length fr)"
    using ok
    by (auto simp: ScaleFloatFormatStringToUint256_def w_def [symmetric] fr_def [symmetric] Let_def)
  ultimately show ?thesis by simp
qed

lemma decimal_value_nonneg: "decimal_value s = Some D \<Longrightarrow> 0 \<le> D"
  by (auto simp: decimal_value_def Let_def split: if_splits)

lemma rate_of_decimal_string:
  assumes "decimal_value s = Some D"
  shows "CalculateScaledExchangeRateFromString s =
    (if 2 ^ 256 \<le> D * 10 ^ 38 then Inl OverflowError
     else if D * 10 ^ 38 < 1 then Inl RangeError
     else Inr (word_of_nat (nat \<lfloor>D * 10 ^ 38\<rfloor>)))"
proof -
  let ?x = "D * 10 ^ 38"
  have x: "0 \<le> ?x" using decimal_value_nonneg [OF assms] by simp
  have a: "2 ^ 256 \<le> nat \<lfloor>?x\<rfloor> \<longleftrightarrow> 2 ^ 256 \<le> ?x"
  proof -
    have "2 ^ 256 \<le> nat \<lfloor>?x\<rfloor> \<longleftrightarrow> (2 ^ 256 :: int) \<le> \<lfloor>?x\<rfloor>"
      using x by (simp add: le_nat_iff)
    also have "\<dots> \<longleftrightarrow> real_of_int (2 ^ 256) \<le> ?x" by (rule le_floor_iff)
    also have "real_of_int (2 ^ 256) = 2 ^ 256" by simp
    finally show ?thesis .
  qed
  have b: "nat \<lfloor>?x\<rfloor> = 0 \<longleftrightarrow> ?x < 1"
  proof -
    have "nat \<lfloor>?x\<rfloor> = 0 \<longleftrightarrow> \<lfloor>?x\<rfloor> \<le> 0" by simp
    also have "\<dots> \<longleftrightarrow> \<lfloor>?x\<rfloor> < 1" by linarith
    also have "\<dots> \<longleftrightarrow> ?x < real_of_int 1" by (rule floor_less_iff)
    also have "real_of_int 1 = 1" by simp
    finally show ?thesis .
  qed
  have "real (unat OneE38) = 10 ^ 38" by (simp add: unat_OneE38)
  then have "CalculateScaledExchangeRateFromString s = checked_uint256 (nat \<lfloor>?x\<rfloor>)"
    by (simp only: CalculateScaledExchangeRateFromString_def Scale_decimal_value [OF assms])
  then show ?thesis
    by (simp only: checked_uint256_def a b)
qed

lemma decimal_value_1e38:
  "decimal_value ''100000000000000000000000000000000000000'' =
     Some 100000000000000000000000000000000000000"
  by (simp add: decimal_value_def digits_eval)

section \<open>Rates from a price string\<close>

lemma ceiling_div_nat:
  assumes "0 < b"
  shows "nat \<lceil>real a / real b\<rceil> = (a + b - 1) div b"
proof -
  define q where "q = a div b"
  define r where "r = a mod b"
  have a: "a = q * b + r" by (simp add: q_def r_def)
  have r: "r < b" using assms by (simp add: r_def)
  have b: "b \<noteq> 0" using assms by simp
  have x: "real a / real b = real q + real r / real b"
    using assms by (simp add: a field_simps)
  show ?thesis
  proof (cases "r = 0")
    case True
    have "a + b - 1 = (b - 1) + q * b" using assms by (simp add: a True)
    also have "\<dots> div b = q + (b - 1) div b" using b by (rule div_mult_self1)
    also have "(b - 1) div b = 0" using assms by simp
    finally have "(a + b - 1) div b = q" by simp
    moreover have "\<lceil>real a / real b\<rceil> = int q" by (simp add: x True)
    ultimately show ?thesis by simp
  next
    case False
    have "a + b - 1 = (r - 1) + (q + 1) * b" using False by (simp add: a)
    also have "\<dots> div b = (q + 1) + (r - 1) div b" using b by (rule div_mult_self1)
    also have "(r - 1) div b = 0" using r by simp
    finally have d: "(a + b - 1) div b = q + 1" by simp
    have "0 < real r / real b" "real r / real b \<le> 1"
      using False r assms by simp_all
    then have "\<lceil>real r / real b\<rceil> = 1" by (simp add: ceiling_eq_iff)
    moreover have "\<lceil>real_of_int (int q) + real r / real b\<rceil> = int q + \<lceil>real r / real b\<rceil>"
      using ceiling_add_of_int [of "real r / real b" "int q"] by (simp only: add.commute)
    ultimately have "\<lceil>real a / real b\<rceil> = int q + 1"
      by (simp only: x of_int_of_nat_eq)
    with d show ?thesis by simp
  qed
qed

lemma invertScaledExchangeRate_ceiling:
  assumes "rate \<noteq> 0"
  shows "invertScaledExchangeRate rate = checked_uint256 (nat \<lceil>10 ^ 76 / real (unat rate)\<rceil>)"
proof -
  have "0 < unat rate" using assms by (simp add: unat_gt_0)
  from ceiling_div_nat [OF this, of "10 ^ 76"]
  show ?thesis by (simp add: invertScaledExchangeRate_def unat_OneE38)
qed

lemma referenceCorrection_DAO:
  "buy \<noteq> '''' \<Longrightarrow> sell \<noteq> '''' \<Longrightarrow> referenceCorrection buy sell rate = Inr rate"
  by (simp add: referenceCorrection_def)

lemma decimal_value_3: "decimal_value ''3'' = Some 3"
  by (simp add: decimal_value_def digits_eval)

lemma rate_string_3:
  "CalculateScaledExchangeRateFromString ''3'' = Inr 300000000000000000000000000000000000000"
  by (simp add: parse_eval scale_consts)

lemma invert_3:
  "invertScaledExchangeRate 300000000000000000000000000000000000000 =
     Inr 33333333333333333333333333333333333334"
  by (simp add: invertScaledExchangeRate_def checked_uint256_def OneE38_def)

section \<open>The base units of a quantity\<close>

text \<open>
  The quantity conversion returns the printed decimal of the quantity times the scaling
  factor, rounded down to an integer: an overflow error when that does not fit 256 bits
  and a range error when it is zero.
\<close>

lemma quantity_scaled:
  assumes "0 \<le> q"
  shows "calculateQuantityToFillToBaseUnitsWithScalingFactor q F =
    Some (checked_uint256 (nat \<lfloor>rendered q * real (unat F)\<rfloor>))"
proof -
  from format_parse [OF assms] obtain s where "formatFloatAsString q = Some s"
    and "\<forall>F. ScaleFloatFormatStringToUint256 s F =
       checked_uint256 (nat \<lfloor>rendered q * real (unat F)\<rfloor>)"
    by blast
  then show ?thesis
    by (simp add: calculateQuantityToFillToBaseUnitsWithScalingFactor_def)
qed

text \<open>A whole number below \<open>10^15\<close> is printed as it is.\<close>

lemma rendered_of_nat:
  assumes "n < 10 ^ 15"
  shows "rendered (real n) = real n"
proof -
  let ?d = "num_digits n"
  have d: "?d \<le> 15" using assms by (rule num_digits_le)
  have "real n * 10 ^ (15 - ?d) = of_int (int (n * 10 ^ (15 - ?d)))" by simp
  then have "round_half_even (real n * 10 ^ (15 - ?d)) = int (n * 10 ^ (15 - ?d))"
    by (simp only: round_half_even_of_int)
  with d show ?thesis by (simp add: rendered_def)
qed

lemma quantity_of_nat:
  assumes "0 < n" and "n < 10 ^ 15" and "unat F = 10 ^ 9 \<or> unat F = 10 ^ 18"
  shows "calculateQuantityToFillToBaseUnitsWithScalingFactor (real n) F =
    Some (Inr (word_of_nat (n * unat F)))"
proof -
  have "n * unat F < 10 ^ 15 * 10 ^ 18"
    using assms(2,3) by (auto intro!: mult_less_le_imp_less)
  also have "\<dots> < (2::nat) ^ 256" by simp
  finally have lt: "n * unat F < 2 ^ 256" .
  have pos: "0 < n * unat F" using assms(1,3) by auto
  have "rendered (real n) * real (unat F) = real (n * unat F)"
    by (simp add: rendered_of_nat [OF assms(2)])
  then have "nat \<lfloor>rendered (real n) * real (unat F)\<rfloor> = n * unat F"
    by (simp only: floor_of_nat nat_int)
  with lt pos show ?thesis
    by (simp add: quantity_scaled checked_uint256_def)
qed

section \<open>Claims\<close>

text \<open>
  C2. The quantity field denominates $DESO (the reference asset) exactly when the buying
  coin is $DESO and the operation is BID, or the selling coin is $DESO and the operation
  is ASK. \<^verbatim>\<open>CalculateQuantityToFillAsBaseUnits\<close> scales by \<open>10^9\<close> in exactly those two
  cases and by \<open>10^18\<close> in every other case: for a quantity \<open>q \<ge> 0\<close> it returns the
  decimal printed for \<open>q\<close> times that factor, rounded down (an overflow error when this
  does not fit 256 bits, a range error when it is zero), so that a whole quantity
  \<open>0 < n < 10^15\<close> gives \<open>n * 10^9\<close> or \<open>n * 10^18\<close> base units. For a pair of two DAO
  coins the quantity is never in $DESO, whatever the operation.
\<close>

theorem quantity_side_selection:
  "isCoinToFillDESO buy sell opr = (buy = '''' \<and> opr = ''BID'' \<or> sell = '''' \<and> opr = ''ASK'') \<and>
   CalculateQuantityToFillAsBaseUnits buy sell opr q =
     calculateQuantityToFillToBaseUnitsWithScalingFactor q
       (if buy = '''' \<and> opr = ''BID'' \<or> sell = '''' \<and> opr = ''ASK''
        then 1000000000 else 1000000000000000000) \<and>
   (0 \<le> q \<longrightarrow>
      CalculateQuantityToFillAsBaseUnits buy sell opr q =
        Some (checked_uint256
          (nat \<lfloor>rendered q *
                 (if buy = '''' \<and> opr = ''BID'' \<or> sell = '''' \<and> opr = ''ASK''
                  then 10 ^ 9 else 10 ^ 18)\<rfloor>))) \<and>
   (0 < n \<and> n < 10 ^ 15 \<longrightarrow>
      CalculateQuantityToFillAsBaseUnits buy sell opr (real n) =
        Some (Inr (word_of_nat
          (n * (if buy = '''' \<and> opr = ''BID'' \<or> sell = '''' \<and> opr = ''ASK''
                then 10 ^ 9 else 10 ^ 18))))) \<and>
   (buy \<noteq> '''' \<and> sell \<noteq> '''' \<longrightarrow> \<not> isCoinToFillDESO buy sell opr)"
proof -
  let ?deso = "buy = '''' \<and> opr = ''BID'' \<or> sell = '''' \<and> opr = ''ASK''"
  let ?F = "if ?deso then 1000000000 else 1000000000000000000 :: uint256"
  have sel: "isCoinToFillDESO buy sell opr = ?deso"
    by (simp add: isCoinToFillDESO_def DAOCoinLimitOrderOperationTypeStringBID_def
        DAOCoinLimitOrderOperationTypeStringASK_def)
  have call: "CalculateQuantityToFillAsBaseUnits buy sell opr x =
      calculateQuantityToFillToBaseUnitsWithScalingFactor x ?F" for x
    by (simp add: sel CalculateQuantityToFillAsBaseUnits_def
        calculateQuantityToFillAsDESONanos_def calculateQuantityToFillAsDAOCoinBaseUnits_def
        scale_consts)
  have F: "unat ?F = (if ?deso then 10 ^ 9 else 10 ^ 18)" by simp
  have res: "CalculateQuantityToFillAsBaseUnits buy sell opr q =
      Some (checked_uint256 (nat \<lfloor>rendered q * (if ?deso then 10 ^ 9 else 10 ^ 18)\<rfloor>))"
    if "0 \<le> q"
  proof -
    have "real (unat ?F) = (if ?deso then 10 ^ 9 else 10 ^ 18)"
      by (simp only: F) simp
    then show ?thesis by (simp only: call quantity_scaled [OF that])
  qed
  have whole: "CalculateQuantityToFillAsBaseUnits buy sell opr (real n) =
      Some (Inr (word_of_nat (n * (if ?deso then 10 ^ 9 else 10 ^ 18))))"
    if "0 < n" "n < 10 ^ 15"
  proof -
    have "unat ?F = 10 ^ 9 \<or> unat ?F = 10 ^ 18" by simp
    from quantity_of_nat [OF that this] show ?thesis by (simp only: call F)
  qed
  from sel call res whole show ?thesis by blast
qed

theorem quantity_side_selection_witness:
  "isCoinToFillDESO '''' ''TestDAOCoinPubKey'' ''BID'' \<and>
   isCoinToFillDESO ''TestDAOCoinPubKey'' '''' ''ASK'' \<and>
   \<not> isCoinToFillDESO ''TestDAOCoinPubKey'' '''' ''BID'' \<and>
   \<not> isCoinToFillDESO '''' ''TestDAOCoinPubKey'' ''ASK'' \<and>
   (0::real) \<le> 1 \<and> rendered 1 = 1 \<and>
   CalculateQuantityToFillAsBaseUnits '''' ''TestDAOCoinPubKey'' ''BID'' 1 = Some (Inr 1000000000) \<and>
   CalculateQuantityToFillAsBaseUnits ''TestDAOCoinPubKey'' '''' ''BID'' 1 =
     Some (Inr 1000000000000000000) \<and>
   CalculateQuantityToFillAsBaseUnits ''TestDAOCoinPubKey'' '''' ''ASK'' 1 = Some (Inr 1000000000) \<and>
   CalculateQuantityToFillAsBaseUnits '''' ''TestDAOCoinPubKey'' ''ASK'' 1 =
     Some (Inr 1000000000000000000) \<and>
   (0::nat) < 25 \<and> (25::nat) < 10 ^ 15 \<and>
   CalculateQuantityToFillAsBaseUnits '''' ''TestDAOCoinPubKey'' ''BID'' 25 = Some (Inr 25000000000) \<and>
   CalculateQuantityToFillAsBaseUnits ''TestDAOCoinPubKey'' ''TestDAOCoinPubKey'' ''BID'' 25 =
     Some (Inr 25000000000000000000) \<and>
   ''TestDAOCoinPubKey'' \<noteq> '''' \<and>
   \<not> isCoinToFillDESO ''TestDAOCoinPubKey'' ''TestDAOCoinPubKey'' ''BID'' \<and>
   \<not> isCoinToFillDESO ''TestDAOCoinPubKey'' ''TestDAOCoinPubKey'' ''ASK''"
  using quantity_side_selection [of "''''" "''TestDAOCoinPubKey''" "''BID''" 1 25]
    quantity_side_selection [of "''TestDAOCoinPubKey''" "''''" "''BID''" 1 25]
    quantity_side_selection [of "''TestDAOCoinPubKey''" "''''" "''ASK''" 1 25]
    quantity_side_selection [of "''''" "''TestDAOCoinPubKey''" "''ASK''" 1 25]
    quantity_side_selection [of "''TestDAOCoinPubKey''" "''TestDAOCoinPubKey''" "''BID''" 1 25]
    quantity_side_selection [of "''TestDAOCoinPubKey''" "''TestDAOCoinPubKey''" "''ASK''" 1 25]
    quantity_1_DAOCoin quantity_1_DESO
  by (simp add: rendered_1 checked_uint256_def scale_consts)

text \<open>
  C9. Neither \<^verbatim>\<open>CalculateQuantityToFillAsBaseUnits\<close> nor \<^verbatim>\<open>CalculateQuantityToFillAsFloat\<close>
  checks the operation type: for every operation string other than \<open>BID\<close> and \<open>ASK\<close>
  (the empty string too) \<^verbatim>\<open>isCoinToFillDESO\<close> is false and the quantity is converted as a
  DAO coin quantity, with the scaling factor \<open>10^18\<close>, as if the operation were valid.
\<close>

theorem operation_type_not_validated:
  assumes "opr \<noteq> ''BID''" and "opr \<noteq> ''ASK''"
  shows "\<not> isCoinToFillDESO buy sell opr \<and>
    CalculateQuantityToFillAsBaseUnits buy sell opr q =
      calculateQuantityToFillToBaseUnitsWithScalingFactor q 1000000000000000000 \<and>
    CalculateQuantityToFillAsFloat buy sell opr v =
      calculateQuantityToFillAsFloatWithScalingFactor v 1000000000000000000"
  using assms
  by (simp add: isCoinToFillDESO_def CalculateQuantityToFillAsBaseUnits_def
      CalculateQuantityToFillAsFloat_def calculateQuantityToFillAsDAOCoinBaseUnits_def
      calculateQuantityToFillFromDAOCoinBaseUnitsToFloat_def
      DAOCoinLimitOrderOperationTypeStringBID_def DAOCoinLimitOrderOperationTypeStringASK_def
      BaseUnitsPerCoin_def)

theorem operation_type_not_validated_witness:
  "'''' \<noteq> ''BID'' \<and> '''' \<noteq> ''ASK'' \<and> \<not> isCoinToFillDESO '''' ''TestDAOCoinPubKey'' '''' \<and>
   CalculateQuantityToFillAsBaseUnits '''' ''TestDAOCoinPubKey'' '''' 1 =
     Some (Inr 1000000000000000000) \<and>
   CalculateQuantityToFillAsFloat '''' ''TestDAOCoinPubKey'' '''' 1000000000000000000 =
     Some (Inr 1)"
  using operation_type_not_validated [of "''''" "''''" "''TestDAOCoinPubKey''" 1 1000000000000000000]
    quantity_1_DAOCoin quantity_float_1_DAOCoin
  by (simp add: BaseUnitsPerCoin_def)

text \<open>
  C10. For every non-negative input the loop of \<^verbatim>\<open>getNumDigits\<close> ends and returns the
  number of decimal digits of the input (0 for the input 0); hence
  \<^verbatim>\<open>formatFloatAsString\<close> returns for every non-negative float, and the conversions from
  canonical form, which count the digits of non-negative values only, always return.
  Non-negativity is needed: on a negative input the loop does not end.
\<close>

theorem getNumDigits_terminates:
  "(0 \<le> v \<longrightarrow> (\<exists>d. getNumDigits v = Some d \<and> (v = 0 \<longrightarrow> d = 0) \<and>
       (0 < v \<longrightarrow> 10 ^ (d - 1) \<le> v \<and> v < 10 ^ d))) \<and>
   (w < 0 \<longrightarrow> getNumDigits w = None) \<and>
   (0 \<le> f \<longrightarrow> (\<exists>s. formatFloatAsString f = Some s)) \<and>
   (g \<le> - 1 \<longrightarrow> formatFloatAsString g = None) \<and>
   (\<exists>r. CalculateExchangeRateAsFloat buy sell sv = Some r) \<and>
   (\<exists>r. CalculateQuantityToFillAsFloat buy sell opr qv = Some r)"
proof (intro conjI impI)
  assume v: "0 \<le> v"
  have "0 < v \<Longrightarrow> 10 ^ (num_digits (nat v) - 1) \<le> v \<and> v < 10 ^ num_digits (nat v)"
  proof -
    assume "0 < v"
    then have "0 < nat v" by simp
    from num_digits_bounds [OF this]
    have "int (10 ^ (num_digits (nat v) - 1)) \<le> int (nat v) \<and>
          int (nat v) < int (10 ^ num_digits (nat v))"
      by (simp only: of_nat_le_iff of_nat_less_iff)
    with \<open>0 < v\<close> show ?thesis by simp
  qed
  with v show "\<exists>d. getNumDigits v = Some d \<and> (v = 0 \<longrightarrow> d = 0) \<and>
      (0 < v \<longrightarrow> 10 ^ (d - 1) \<le> v \<and> v < 10 ^ d)"
    by (auto simp: getNumDigits_nonneg num_digits_0)
next
  assume "w < 0"
  then show "getNumDigits w = None" by (rule getNumDigits_neg)
next
  assume "0 \<le> f"
  then show "\<exists>s. formatFloatAsString f = Some s"
    by (simp add: formatFloatAsString_nonneg)
next
  assume g: "g \<le> - 1"
  then have "1 \<le> - g" by simp
  then have "1 \<le> \<lfloor>- g\<rfloor>" by (simp add: le_floor_iff)
  then have "float_to_Int g < 0" using g by (simp add: float_to_Int_def)
  then show "formatFloatAsString g = None"
    by (simp add: formatFloatAsString_def getNumDigits_neg Let_def)
next
  show "\<exists>r. CalculateExchangeRateAsFloat buy sell sv = Some r"
    unfolding CalculateExchangeRateAsFloat_def Let_def
    by (rule formatScaledAsFloat_nonneg) (simp_all add: OneE38_def)
next
  have "\<exists>r. calculateQuantityToFillAsFloatWithScalingFactor qv s = Some r" for s
    unfolding calculateQuantityToFillAsFloatWithScalingFactor_def Let_def
    by (rule formatScaledAsFloat_nonneg) simp_all
  then show "\<exists>r. CalculateQuantityToFillAsFloat buy sell opr qv = Some r"
    by (simp add: CalculateQuantityToFillAsFloat_def
        calculateQuantityToFillFromDESONanosToFloat_def
        calculateQuantityToFillFromDAOCoinBaseUnitsToFloat_def)
qed

theorem getNumDigits_terminates_witness:
  "(0::int) \<le> 1234 \<and> (\<exists>d. getNumDigits 1234 = Some d \<and> 10 ^ (d - 1) \<le> (1234::int) \<and> 1234 < (10::int) ^ d) \<and>
   (- 1::int) < 0 \<and> getNumDigits (- 1) = None \<and>
   (0::real) \<le> 1 \<and> (\<exists>s. formatFloatAsString 1 = Some s) \<and>
   (- 1::real) \<le> - 1 \<and> formatFloatAsString (- 1) = None"
  using getNumDigits_terminates [of 1234 "- 1" 1 "- 1"]
  by simp

text \<open>
  C1. \<^verbatim>\<open>CalculateScaledExchangeRate\<close> first obtains the raw scaled rate \<open>R\<close> of the price (for
  a non-negative float, the printed decimal times \<open>10^38\<close>) and passes on an error of that
  step. Then, with \<open>K = 10^9\<close> the value of \<^verbatim>\<open>getDESOToDAOCoinBaseUnitsScalingFactor\<close>: if the
  buying coin is $DESO it returns \<open>R * K\<close>, or an overflow error when the product does not
  fit 256 bits; otherwise, if the selling coin is $DESO, it returns \<open>R div K\<close>, or a range
  error when the quotient is zero; otherwise it returns \<open>R\<close>. The buying coin is tested
  first, so the case of the selling coin is the case of a pair that buys a DAO coin. For
  the price 1.0 the results are \<open>10^38 div K\<close> and \<open>10^38 * K\<close>.
\<close>

theorem scaled_exchange_rate_correction:
  assumes "formatFloatAsString p = Some s"
  shows "unat getDESOToDAOCoinBaseUnitsScalingFactor = 10 ^ 9 \<and>
    (\<forall>err. CalculateScaledExchangeRateFromString s = Inl err \<longrightarrow>
       CalculateScaledExchangeRate buy sell p = Some (Inl err)) \<and>
    (\<forall>R. CalculateScaledExchangeRateFromString s = Inr R \<longrightarrow>
       (0 \<le> p \<longrightarrow> real (unat R) = rendered p * 10 ^ 38) \<and>
       (buy = '''' \<longrightarrow>
          CalculateScaledExchangeRate buy sell p =
            Some (if 2 ^ 256 \<le> unat R * 10 ^ 9 then Inl OverflowError
                  else Inr (R * getDESOToDAOCoinBaseUnitsScalingFactor)) \<and>
          (unat R * 10 ^ 9 < 2 ^ 256 \<longrightarrow>
             unat (R * getDESOToDAOCoinBaseUnitsScalingFactor) = unat R * 10 ^ 9)) \<and>
       (buy \<noteq> '''' \<and> sell = '''' \<longrightarrow>
          CalculateScaledExchangeRate buy sell p =
            Some (if unat R div 10 ^ 9 = 0 then Inl RangeError
                  else Inr (R div getDESOToDAOCoinBaseUnitsScalingFactor)) \<and>
          unat (R div getDESOToDAOCoinBaseUnitsScalingFactor) = unat R div 10 ^ 9) \<and>
       (buy \<noteq> '''' \<and> sell \<noteq> '''' \<longrightarrow> CalculateScaledExchangeRate buy sell p = Some (Inr R))) \<and>
    CalculateScaledExchangeRate ''TestDAOCoinPubKey'' '''' 1 =
      Some (Inr (OneE38 div getDESOToDAOCoinBaseUnitsScalingFactor)) \<and>
    CalculateScaledExchangeRate '''' ''TestDAOCoinPubKey'' 1 =
      Some (Inr (OneE38 * getDESOToDAOCoinBaseUnitsScalingFactor))"
proof (intro conjI allI impI)
  show "unat getDESOToDAOCoinBaseUnitsScalingFactor = 10 ^ 9"
    by (rule unat_scaling_factor)
next
  fix err
  assume "CalculateScaledExchangeRateFromString s = Inl err"
  with assms show "CalculateScaledExchangeRate buy sell p = Some (Inl err)"
    by (simp add: CalculateScaledExchangeRate_def)
next
  fix R
  assume R: "CalculateScaledExchangeRateFromString s = Inr R" and p: "0 \<le> p"
  from rate_from_string_of_float [OF p] assms R
  have "checked_uint256 (rawScaledRate p) = Inr R" by auto
  then have "unat R = rawScaledRate p"
    by (auto simp: checked_uint256_Inr unat_word_of_nat_256)
  then show "real (unat R) = rendered p * 10 ^ 38"
    by (simp only: rawScaledRate_exact(1) [OF p])
next
  fix R
  assume R: "CalculateScaledExchangeRateFromString s = Inr R" and b: "buy = ''''"
  from R have nz: "R \<noteq> 0"
    by (auto simp: CalculateScaledExchangeRateFromString_def dest: Scale_Inr_nonzero)
  show "CalculateScaledExchangeRate buy sell p =
      Some (if 2 ^ 256 \<le> unat R * 10 ^ 9 then Inl OverflowError
            else Inr (R * getDESOToDAOCoinBaseUnitsScalingFactor))"
    using assms R nz b
    by (simp add: CalculateScaledExchangeRate_def MulOverflow_def unat_scaling_factor)
next
  fix R :: uint256
  assume "unat R * 10 ^ 9 < 2 ^ 256"
  then have "unat R * unat getDESOToDAOCoinBaseUnitsScalingFactor < 2 ^ LENGTH(256)"
    by (simp add: unat_scaling_factor)
  then have "unat (R * getDESOToDAOCoinBaseUnitsScalingFactor) =
      unat R * unat getDESOToDAOCoinBaseUnitsScalingFactor"
    by (simp only: unat_mult_lem)
  then show "unat (R * getDESOToDAOCoinBaseUnitsScalingFactor) = unat R * 10 ^ 9"
    by (simp only: unat_scaling_factor)
next
  fix R
  assume R: "CalculateScaledExchangeRateFromString s = Inr R"
    and b: "buy \<noteq> '''' \<and> sell = ''''"
  from R have nz: "R \<noteq> 0"
    by (auto simp: CalculateScaledExchangeRateFromString_def dest: Scale_Inr_nonzero)
  have z: "(R div getDESOToDAOCoinBaseUnitsScalingFactor = 0) = (unat R div 10 ^ 9 = 0)"
    by (simp only: unat_eq_0 [symmetric] unat_div unat_scaling_factor)
  show "CalculateScaledExchangeRate buy sell p =
      Some (if unat R div 10 ^ 9 = 0 then Inl RangeError
            else Inr (R div getDESOToDAOCoinBaseUnitsScalingFactor))"
    using assms R nz b
    by (simp add: CalculateScaledExchangeRate_def Let_def z)
next
  fix R :: uint256
  show "unat (R div getDESOToDAOCoinBaseUnitsScalingFactor) = unat R div 10 ^ 9"
    by (simp only: unat_div unat_scaling_factor)
next
  fix R
  assume R: "CalculateScaledExchangeRateFromString s = Inr R"
    and b: "buy \<noteq> '''' \<and> sell \<noteq> ''''"
  from R have nz: "R \<noteq> 0"
    by (auto simp: CalculateScaledExchangeRateFromString_def dest: Scale_Inr_nonzero)
  show "CalculateScaledExchangeRate buy sell p = Some (Inr R)"
    using assms R nz b by (simp add: CalculateScaledExchangeRate_def)
next
  show "CalculateScaledExchangeRate ''TestDAOCoinPubKey'' '''' 1 =
      Some (Inr (OneE38 div getDESOToDAOCoinBaseUnitsScalingFactor))"
    by (simp add: rate_1_sell_DESO scale_consts)
next
  show "CalculateScaledExchangeRate '''' ''TestDAOCoinPubKey'' 1 =
      Some (Inr (OneE38 * getDESOToDAOCoinBaseUnitsScalingFactor))"
    by (simp add: rate_1_buy_DESO scale_consts)
qed

theorem scaled_exchange_rate_correction_witness:
  "formatFloatAsString 1 = Some ''1.00000000000000'' \<and>
   CalculateScaledExchangeRateFromString ''1.00000000000000'' = Inr OneE38 \<and>
   real (unat OneE38) = rendered 1 * 10 ^ 38 \<and>
   CalculateScaledExchangeRate '''' ''TestDAOCoinPubKey'' 1 = Some (Inr (10 ^ 47)) \<and>
   CalculateScaledExchangeRate ''TestDAOCoinPubKey'' '''' 1 = Some (Inr (10 ^ 29)) \<and>
   CalculateScaledExchangeRate ''TestDAOCoinPubKey'' ''TestDAOCoinPubKey'' 1 = Some (Inr (10 ^ 38))"
proof -
  have s: "formatFloatAsString 1 = Some ''1.00000000000000''"
    by (rule formatFloatAsString_1)
  have R: "CalculateScaledExchangeRateFromString ''1.00000000000000'' = Inr OneE38"
    by (simp add: parse_eval OneE38_def)
  have u: "unat OneE38 * 10 ^ 9 < 2 ^ 256" "unat OneE38 div 10 ^ 9 \<noteq> 0"
    by (simp_all add: OneE38_def)
  from scaled_exchange_rate_correction [OF s, of "''''" "''TestDAOCoinPubKey''"] R u
  have a: "CalculateScaledExchangeRate '''' ''TestDAOCoinPubKey'' 1 =
      Some (Inr (OneE38 * getDESOToDAOCoinBaseUnitsScalingFactor))"
    and v: "real (unat OneE38) = rendered 1 * 10 ^ 38"
    by simp_all
  from scaled_exchange_rate_correction [OF s, of "''TestDAOCoinPubKey''" "''''"] R u
  have b: "CalculateScaledExchangeRate ''TestDAOCoinPubKey'' '''' 1 =
      Some (Inr (OneE38 div getDESOToDAOCoinBaseUnitsScalingFactor))"
    by simp
  from scaled_exchange_rate_correction [OF s, of "''TestDAOCoinPubKey''" "''TestDAOCoinPubKey''"] R
  have c: "CalculateScaledExchangeRate ''TestDAOCoinPubKey'' ''TestDAOCoinPubKey'' 1 =
      Some (Inr OneE38)"
    by simp
  show ?thesis
    using s R v a b c by (simp add: scale_consts)
qed

text \<open>
  C4. A zero quantity is rejected with a range error, for every buying coin, selling
  coin and operation: the float 0.0 is printed as \<open>0.000000000000000\<close>, and the scaling
  of the strings \<open>0\<close>, \<open>0.0\<close> and \<open>0.000000000000000\<close> by any factor is a range error.
\<close>

theorem zero_quantity_rejected:
  "CalculateQuantityToFillAsBaseUnits buy sell opr 0 = Some (Inl RangeError) \<and>
   formatFloatAsString 0 = Some ''0.000000000000000'' \<and>
   ScaleFloatFormatStringToUint256 ''0.000000000000000'' F = Inl RangeError \<and>
   ScaleFloatFormatStringToUint256 ''0'' F = Inl RangeError \<and>
   ScaleFloatFormatStringToUint256 ''0.0'' F = Inl RangeError"
proof -
  have z: "ScaleFloatFormatStringToUint256 ''0.000000000000000'' G = Inl RangeError" for G
    by (simp add: parse_eval)
  have "calculateQuantityToFillToBaseUnitsWithScalingFactor 0 G = Some (Inl RangeError)" for G
    by (simp add: calculateQuantityToFillToBaseUnitsWithScalingFactor_def formatFloatAsString_0 z)
  then have "CalculateQuantityToFillAsBaseUnits buy sell opr 0 = Some (Inl RangeError)"
    by (simp add: CalculateQuantityToFillAsBaseUnits_def calculateQuantityToFillAsDESONanos_def
        calculateQuantityToFillAsDAOCoinBaseUnits_def)
  moreover have "ScaleFloatFormatStringToUint256 ''0'' F = Inl RangeError"
    by (simp add: parse_eval)
  moreover have "ScaleFloatFormatStringToUint256 ''0.0'' F = Inl RangeError"
    by (simp add: parse_eval)
  ultimately show ?thesis
    by (simp add: formatFloatAsString_0 z)
qed

theorem zero_quantity_rejected_witness:
  "CalculateQuantityToFillAsBaseUnits '''' ''TestDAOCoinPubKey'' ''BID'' 0 = Some (Inl RangeError) \<and>
   CalculateQuantityToFillAsBaseUnits ''TestDAOCoinPubKey'' ''TestDAOCoinPubKey'' ''ASK'' 0 =
     Some (Inl RangeError) \<and>
   ScaleFloatFormatStringToUint256 ''0'' BaseUnitsPerCoin = Inl RangeError \<and>
   ScaleFloatFormatStringToUint256 ''0.0'' (ucast NanosPerUnit) = Inl RangeError"
  using zero_quantity_rejected [of "''''" "''TestDAOCoinPubKey''" "''BID''" BaseUnitsPerCoin]
    zero_quantity_rejected [of "''TestDAOCoinPubKey''" "''TestDAOCoinPubKey''" "''ASK''"
      "ucast NanosPerUnit"]
  by simp

text \<open>
  C6. For a non-negative float \<open>f\<close> whose integer part has \<open>d\<close> digits
  (\<^verbatim>\<open>getNumDigits\<close> of the truncated float): if \<open>d \<le> 15\<close>, \<^verbatim>\<open>formatFloatAsString\<close> prints
  \<open>f\<close> with exactly \<open>15 - d\<close> digits after the decimal point (no point at all when
  \<open>d = 15\<close>), the value being \<open>f\<close> rounded at that digit; if \<open>d > 15\<close>, it prints the
  integer \<open>floor (f / 10^(d - 15)) * 10^(d - 15)\<close> followed by \<open>.0\<close>. The float written
  \<open>1234567890123456789.0\<close> is the double \<open>1234567890123456768\<close>, and it is printed as
  \<open>1234567890123450000.0\<close>.
\<close>

theorem formatFloatAsString_digits:
  assumes "0 \<le> f"
  shows "\<exists>d. getNumDigits (float_to_Int f) = Some d \<and>
    (d < 15 \<longrightarrow>
       formatFloatAsString f = Some (fmt_f (15 - d) f) \<and>
       (\<exists>w fr. fmt_f (15 - d) f = w @ CHR ''.'' # fr \<and> w \<noteq> [] \<and> list_all is_digit w \<and>
          list_all is_digit fr \<and> length fr = 15 - d)) \<and>
    (d = 15 \<longrightarrow>
       formatFloatAsString f = Some (fmt_f 0 f) \<and> list_all is_digit (fmt_f 0 f)) \<and>
    (d \<le> 15 \<longrightarrow>
       decimal_value (fmt_f (15 - d) f) =
         Some (of_int (round_half_even (f * 10 ^ (15 - d))) / 10 ^ (15 - d))) \<and>
    (15 < d \<longrightarrow>
       formatFloatAsString f =
         Some (fmt_d (nat (\<lfloor>f / 10 ^ (d - 15)\<rfloor> * 10 ^ (d - 15))) @ ''.0'')) \<and>
    round_to_float64 1234567890123456789 = 1234567890123456768 \<and>
    formatFloatAsString 1234567890123456768 = Some ''1234567890123450000.0''"
proof -
  define d where "d = num_digits (nat \<lfloor>f\<rfloor>)"
  have g: "getNumDigits (float_to_Int f) = Some d"
    using assms by (simp add: float_to_Int_def getNumDigits_nonneg d_def)
  have fl: "\<lfloor>f / 10 ^ k\<rfloor> = \<lfloor>f\<rfloor> div 10 ^ k" for k
    using floor_divide_real_eq_div [of "10 ^ k" f] by simp
  have small: "formatFloatAsString f = Some (fmt_f (15 - d) f)" if "d \<le> 15"
    using assms that by (simp add: formatFloatAsString_nonneg d_def)
  have large: "formatFloatAsString f =
      Some (fmt_d (nat (\<lfloor>f / 10 ^ (d - 15)\<rfloor> * 10 ^ (d - 15))) @ ''.0'')" if "15 < d"
    using assms that by (simp add: formatFloatAsString_nonneg d_def [symmetric] fl)
  have shape: "\<exists>w fr. fmt_f (15 - d) f = w @ CHR ''.'' # fr \<and> w \<noteq> [] \<and> list_all is_digit w \<and>
      list_all is_digit fr \<and> length fr = 15 - d" if "d < 15"
    using fmt_f_shape [OF assms, of "15 - d"] that by simp
  show ?thesis
    using g small large shape fmt_f_shape_0 [OF assms] decimal_value_fmt_f [OF assms]
      float64_1234567890123456789 formatFloatAsString_large_example
    by (intro exI [of _ d]) simp
qed

theorem formatFloatAsString_digits_witness:
  "(0::real) \<le> 2476979795053773 / 2251799813685248 \<and>
   getNumDigits (float_to_Int (2476979795053773 / 2251799813685248)) = Some 1 \<and>
   formatFloatAsString (2476979795053773 / 2251799813685248) = Some ''1.10000000000000'' \<and>
   (0::real) \<le> 1234567890123456768 \<and>
   getNumDigits (float_to_Int 1234567890123456768) = Some 19 \<and>
   formatFloatAsString 1234567890123456768 = Some ''1234567890123450000.0''"
proof -
  have a: "(0::real) \<le> 2476979795053773 / 2251799813685248" by simp
  have b: "(0::real) \<le> 1234567890123456768" by simp
  have da: "getNumDigits (float_to_Int (2476979795053773 / 2251799813685248)) = Some 1"
    by (simp add: float_to_Int_def getNumDigits_nonneg num_digits_eval)
  have db: "getNumDigits (float_to_Int 1234567890123456768) = Some 19"
    using num_digits_large_example by (simp add: float_to_Int_def getNumDigits_nonneg)
  from formatFloatAsString_digits [OF a] da
  have "formatFloatAsString (2476979795053773 / 2251799813685248) =
      Some (fmt_f 14 (2476979795053773 / 2251799813685248))"
    by auto
  then have fa: "formatFloatAsString (2476979795053773 / 2251799813685248) = Some ''1.10000000000000''"
    by (simp add: fmt_f_def round_half_even_def fmt_d_eval)
  from formatFloatAsString_digits [OF b] db
  have fb: "formatFloatAsString 1234567890123456768 = Some ''1234567890123450000.0''"
    by auto
  from a b da db fa fb show ?thesis by simp
qed

text \<open>
  C3 (as stated, it fails). The price \<open>10^23\<close>, one significant digit, is the double
  \<open>99999999999999991611392\<close>. For a pair of DAO coins it is accepted, and the rate that it
  gives converts back to the double \<open>99999999999999907725312\<close>, which is another number:
  \<^verbatim>\<open>formatFloatAsString\<close> cuts the integer value of the double after its first 15 digits.
\<close>

theorem rate_round_trip_counterexample:
  "round_to_float64 (10 ^ 23) = 99999999999999991611392 \<and>
   CalculateScaledExchangeRate ''TestDAOCoinPubKey'' ''TestDAOCoinPubKey'' 99999999999999991611392 =
     Some (Inr 9999999999999990000000000000000000000000000000000000000000000) \<and>
   CalculateExchangeRateAsFloat ''TestDAOCoinPubKey'' ''TestDAOCoinPubKey''
     9999999999999990000000000000000000000000000000000000000000000 =
     Some (Inr 99999999999999907725312) \<and>
   (99999999999999907725312::real) \<noteq> 99999999999999991611392"
  using float64_1e23 rate_1e23 float_of_rate_1e23 by simp

text \<open>
  C3 (amended). For every pair (buying $DESO, selling $DESO, or neither) and every
  non-negative float \<open>p\<close> that \<^verbatim>\<open>CalculateScaledExchangeRate\<close> accepts,
  \<^verbatim>\<open>CalculateExchangeRateAsFloat\<close> applied to the resulting rate returns the double nearest
  to the decimal that \<^verbatim>\<open>formatFloatAsString\<close> prints for \<open>p\<close> (\<open>rendered p\<close>); it returns
  \<open>p\<close> itself when \<open>p\<close> is that double.
\<close>

theorem rate_round_trip_rendered:
  assumes "0 \<le> p" and "CalculateScaledExchangeRate buy sell p = Some (Inr r)"
  shows "CalculateExchangeRateAsFloat buy sell r = Some (Inr (round_to_float64 (rendered p))) \<and>
    (round_to_float64 (rendered p) = p \<longrightarrow>
       CalculateExchangeRateAsFloat buy sell r = Some (Inr p))"
  using rate_round_trip [OF assms] by simp

theorem rate_round_trip_rendered_witness:
  "(0::real) \<le> 1 \<and> round_to_float64 (rendered 1) = 1 \<and>
   CalculateScaledExchangeRate '''' ''TestDAOCoinPubKey'' 1 =
     Some (Inr 100000000000000000000000000000000000000000000000) \<and>
   CalculateExchangeRateAsFloat '''' ''TestDAOCoinPubKey''
     100000000000000000000000000000000000000000000000 = Some (Inr 1) \<and>
   CalculateScaledExchangeRate ''TestDAOCoinPubKey'' '''' 1 =
     Some (Inr 100000000000000000000000000000) \<and>
   CalculateExchangeRateAsFloat ''TestDAOCoinPubKey'' '''' 100000000000000000000000000000 =
     Some (Inr 1) \<and>
   CalculateScaledExchangeRate ''TestDAOCoinPubKey'' ''TestDAOCoinPubKey'' 1 =
     Some (Inr 100000000000000000000000000000000000000) \<and>
   CalculateExchangeRateAsFloat ''TestDAOCoinPubKey'' ''TestDAOCoinPubKey''
     100000000000000000000000000000000000000 = Some (Inr 1)"
  using rate_round_trip_rendered [OF _ rate_1_buy_DESO]
    rate_round_trip_rendered [OF _ rate_1_sell_DESO]
    rate_round_trip_rendered [OF _ rate_1_DAO]
    rate_1_buy_DESO rate_1_sell_DESO rate_1_DAO
  by (simp add: rendered_1 float64_1)

text \<open>
  C7 (as stated, it fails). The float \<open>0.9999999999999999\<close> is the double
  \<open>9007199254740991 / 2^53\<close>; \<^verbatim>\<open>formatFloatAsString\<close> prints it as \<open>1.000000000000000\<close>,
  which is above it. The canonical rate \<open>199999999999999999999999999999999999999\<close> denotes
  \<open>1.99999999999999999999999999999999999999\<close> and \<^verbatim>\<open>CalculateExchangeRateAsFloat\<close> returns
  2 for it. The rate \<open>33333333333333333333333333333333333333\<close> gives the double
  \<open>6004799503160661 / 2^54\<close>, which lies strictly between the doubles of the 15-digit
  decimals \<open>0.333333333333333\<close> and \<open>0.333333333333334\<close>, so it is the double of no decimal
  with 15 significant digits.
\<close>

theorem truncation_counterexample:
  "round_to_float64 (9999999999999999 / 10 ^ 16) = 9007199254740991 / 9007199254740992 \<and>
   formatFloatAsString (9007199254740991 / 9007199254740992) = Some ''1.000000000000000'' \<and>
   (9007199254740991 / 9007199254740992 :: real) < 1 \<and>
   CalculateExchangeRateAsFloat ''TestDAOCoinPubKey'' ''TestDAOCoinPubKey''
     199999999999999999999999999999999999999 = Some (Inr 2) \<and>
   (199999999999999999999999999999999999999 / 10 ^ 38 :: real) < 2 \<and>
   CalculateExchangeRateAsFloat ''TestDAOCoinPubKey'' ''TestDAOCoinPubKey''
     33333333333333333333333333333333333333 = Some (Inr (6004799503160661 / 18014398509481984)) \<and>
   round_to_float64 (333333333333333 / 10 ^ 15) < 6004799503160661 / 18014398509481984 \<and>
   6004799503160661 / 18014398509481984 < round_to_float64 (333333333333334 / 10 ^ 15)"
  using float64_16_nines format_rounds_up float_of_rate_rounds_up float_of_rate_third
    float64_third_15_digits
  by simp

text \<open>
  C7 (amended). \<^verbatim>\<open>formatFloatAsString\<close> limits a non-negative float to 15 significant
  digits: when the integer part has more than 15 digits it truncates (the printed value
  is the integer part with the digits after the first 15 dropped, never above the
  float); when the integer part has \<open>d \<le> 15\<close> digits it rounds to \<open>15 - d\<close> decimals, to
  nearest with ties to even, so the printed value is within half a unit of the last
  printed digit and can be above the float. \<^verbatim>\<open>CalculateExchangeRateAsFloat\<close> and
  \<^verbatim>\<open>CalculateQuantityToFillAsFloat\<close> apply no limit of 15 digits: they return the double
  nearest to the exact quotient of the (rescaled) canonical value by the scale, within
  half a unit of the last place of the double.
\<close>

theorem significant_digits:
  "(0 \<le> f \<longrightarrow>
      (\<exists>s. formatFloatAsString f = Some s \<and> decimal_value s = Some (rendered f)) \<and>
      (15 < num_digits (nat \<lfloor>f\<rfloor>) \<longrightarrow>
         rendered f = of_int (\<lfloor>f\<rfloor> div 10 ^ (num_digits (nat \<lfloor>f\<rfloor>) - 15) *
                              10 ^ (num_digits (nat \<lfloor>f\<rfloor>) - 15)) \<and>
         rendered f \<le> f) \<and>
      (num_digits (nat \<lfloor>f\<rfloor>) \<le> 15 \<longrightarrow>
         \<bar>rendered f - f\<bar> \<le> 1 / (2 * 10 ^ (15 - num_digits (nat \<lfloor>f\<rfloor>))))) \<and>
   CalculateExchangeRateAsFloat buy sell v =
     Some (Inr (round_to_float64
       (real_of_int (if buy = '''' then uint v div 10 ^ 9
                     else if sell = '''' then uint v * 10 ^ 9 else uint v) / 10 ^ 38))) \<and>
   CalculateQuantityToFillAsFloat buy sell opr q =
     Some (Inr (round_to_float64
       (real_of_int (uint q) / (if isCoinToFillDESO buy sell opr then 10 ^ 9 else 10 ^ 18)))) \<and>
   \<bar>round_to_float64 x - x\<bar> \<le> pow2 (max (floor_log2 \<bar>x\<bar> - 52) (- 1074)) / 2"
proof (intro conjI impI)
  assume "0 \<le> f"
  then show "\<exists>s. formatFloatAsString f = Some s \<and> decimal_value s = Some (rendered f)"
    using format_parse [of f] by blast
next
  assume "0 \<le> f" and "15 < num_digits (nat \<lfloor>f\<rfloor>)"
  then show "rendered f = of_int (\<lfloor>f\<rfloor> div 10 ^ (num_digits (nat \<lfloor>f\<rfloor>) - 15) *
      10 ^ (num_digits (nat \<lfloor>f\<rfloor>) - 15))"
    by (rule rendered_large(1))
next
  assume "0 \<le> f" and "15 < num_digits (nat \<lfloor>f\<rfloor>)"
  then show "rendered f \<le> f" by (rule rendered_large(2))
next
  assume "num_digits (nat \<lfloor>f\<rfloor>) \<le> 15"
  then show "\<bar>rendered f - f\<bar> \<le> 1 / (2 * 10 ^ (15 - num_digits (nat \<lfloor>f\<rfloor>)))"
    by (rule rendered_small)
next
  show "CalculateExchangeRateAsFloat buy sell v =
     Some (Inr (round_to_float64
       (real_of_int (if buy = '''' then uint v div 10 ^ 9
                     else if sell = '''' then uint v * 10 ^ 9 else uint v) / 10 ^ 38)))"
    by (rule CalculateExchangeRateAsFloat_value)
next
  show "CalculateQuantityToFillAsFloat buy sell opr q =
     Some (Inr (round_to_float64
       (real_of_int (uint q) / (if isCoinToFillDESO buy sell opr then 10 ^ 9 else 10 ^ 18))))"
    by (rule CalculateQuantityToFillAsFloat_value)
next
  show "\<bar>round_to_float64 x - x\<bar> \<le> pow2 (max (floor_log2 \<bar>x\<bar> - 52) (- 1074)) / 2"
    by (rule round_to_float64_near)
qed

theorem significant_digits_witness:
  "(0::real) \<le> 1234567890123456768 \<and> 15 < num_digits (nat \<lfloor>1234567890123456768::real\<rfloor>) \<and>
   rendered 1234567890123456768 = 1234567890123450000 \<and>
   rendered 1234567890123456768 \<le> 1234567890123456768 \<and>
   (0::real) \<le> 1 \<and> num_digits (nat \<lfloor>1::real\<rfloor>) \<le> 15 \<and> \<bar>rendered 1 - 1\<bar> \<le> 1 / (2 * 10 ^ 14) \<and>
   CalculateExchangeRateAsFloat ''TestDAOCoinPubKey'' ''TestDAOCoinPubKey''
     199999999999999999999999999999999999999 = Some (Inr 2) \<and>
   CalculateQuantityToFillAsFloat '''' ''TestDAOCoinPubKey'' ''BID'' 1000000000 = Some (Inr 1)"
proof -
  have a: "(0::real) \<le> 1234567890123456768" by simp
  have b: "15 < num_digits (nat \<lfloor>1234567890123456768::real\<rfloor>)"
    by (simp add: num_digits_large_example)
  have c: "num_digits (nat \<lfloor>1::real\<rfloor>) = 1" by (simp add: num_digits_eval)
  note t1 = significant_digits [of 1234567890123456768 "''TestDAOCoinPubKey''"
      "''TestDAOCoinPubKey''" 199999999999999999999999999999999999999 "''BID''" 1000000000 0]
  note t2 = significant_digits [of 1 "''''" "''TestDAOCoinPubKey''" 0 "''BID''" 1000000000 0]
  from t1 a b have r: "rendered 1234567890123456768 = 1234567890123450000"
    and le: "rendered 1234567890123456768 \<le> 1234567890123456768"
    by (simp_all add: num_digits_large_example)
  from t2 c have s: "\<bar>rendered 1 - 1\<bar> \<le> 1 / (2 * 10 ^ 14)" by simp
  from t1 have e: "CalculateExchangeRateAsFloat ''TestDAOCoinPubKey'' ''TestDAOCoinPubKey''
      199999999999999999999999999999999999999 = Some (Inr 2)"
    by (simp add: round_to_float64_eval)
  from t2 have q: "CalculateQuantityToFillAsFloat '''' ''TestDAOCoinPubKey'' ''BID'' 1000000000 =
      Some (Inr 1)"
    by (simp add: isCoinToFillDESO_def DAOCoinLimitOrderOperationTypeStringBID_def
        round_to_float64_eval)
  from a b c r le s e q show ?thesis by simp
qed

text \<open>
  C5 (as stated, it fails). The double \<open>2^127\<close>, about \<open>1.7 * 10^38\<close>, is not below
  \<open>10^38\<close> and is accepted for a pair of DAO coins; so is the decimal string of \<open>10^38\<close>
  by the string conversion. The double of \<open>10^-16\<close> lies in the interval and is rejected
  with a range error.
\<close>

theorem rate_domain_counterexample:
  "(10::real) ^ 38 \<le> 170141183460469231731687303715884105728 \<and>
   round_to_float64 170141183460469231731687303715884105728 =
     170141183460469231731687303715884105728 \<and>
   CalculateScaledExchangeRate ''TestDAOCoinPubKey'' ''TestDAOCoinPubKey''
     170141183460469231731687303715884105728 =
     Some (Inr 17014118346046900000000000000000000000000000000000000000000000000000000000000) \<and>
   decimal_value ''100000000000000000000000000000000000000'' =
     Some 100000000000000000000000000000000000000 \<and>
   CalculateScaledExchangeRateFromString ''100000000000000000000000000000000000000'' =
     Inr 10000000000000000000000000000000000000000000000000000000000000000000000000000 \<and>
   round_to_float64 (1 / 10 ^ 16) = 2028240960365167 / 20282409603651670423947251286016 \<and>
   (1 / 10 ^ 38 :: real) \<le> 2028240960365167 / 20282409603651670423947251286016 \<and>
   (2028240960365167 / 20282409603651670423947251286016 :: real) < 10 ^ 38 \<and>
   CalculateScaledExchangeRate ''TestDAOCoinPubKey'' ''TestDAOCoinPubKey''
     (2028240960365167 / 20282409603651670423947251286016) = Some (Inl RangeError)"
  using float64_2p127 rate_2p127 decimal_value_1e38 rate_string_1e38 float64_1e_16 rate_1e_16
  by simp

text \<open>
  C5 (amended). Before the correction for $DESO, the rate converter rejects an input
  with a range error exactly when its raw scaled value is zero and with an overflow error
  exactly when its raw scaled value does not fit 256 bits. For a decimal string of value
  \<open>D\<close> these are \<open>D < 10^-38\<close> and \<open>D * 10^38 \<ge> 2^256\<close>; for a non-negative float \<open>p\<close>
  they are \<open>p \<le> 5 * 10^-16\<close> and \<open>p \<ge> 1.15792089237317 * 10^39\<close>, for every pair. In between,
  a float is accepted for a pair of two DAO coins, with the printed decimal times \<open>10^38\<close>
  as its rate.
\<close>

theorem rate_domain:
  "(decimal_value s = Some D \<longrightarrow>
      CalculateScaledExchangeRateFromString s =
        (if 2 ^ 256 \<le> D * 10 ^ 38 then Inl OverflowError
         else if D * 10 ^ 38 < 1 then Inl RangeError
         else Inr (word_of_nat (nat \<lfloor>D * 10 ^ 38\<rfloor>)))) \<and>
   (0 \<le> p \<and> p \<le> 1 / (2 * 10 ^ 15) \<longrightarrow>
      CalculateScaledExchangeRate buy sell p = Some (Inl RangeError)) \<and>
   (115792089237317 * 10 ^ 25 \<le> p \<longrightarrow>
      CalculateScaledExchangeRate buy sell p = Some (Inl OverflowError)) \<and>
   (1 / (2 * 10 ^ 15) < p \<and> p < 115792089237317 * 10 ^ 25 \<and> buy \<noteq> '''' \<and> sell \<noteq> '''' \<longrightarrow>
      (\<exists>R. CalculateScaledExchangeRate buy sell p = Some (Inr R) \<and>
           real (unat R) = rendered p * 10 ^ 38))"
proof (intro conjI impI)
  assume "decimal_value s = Some D"
  then show "CalculateScaledExchangeRateFromString s =
        (if 2 ^ 256 \<le> D * 10 ^ 38 then Inl OverflowError
         else if D * 10 ^ 38 < 1 then Inl RangeError
         else Inr (word_of_nat (nat \<lfloor>D * 10 ^ 38\<rfloor>)))"
    by (rule rate_of_decimal_string)
next
  assume a: "0 \<le> p \<and> p \<le> 1 / (2 * 10 ^ 15)"
  then have "rawScaledRate p = 0" by (simp add: rawScaledRate_zero_iff)
  with a show "CalculateScaledExchangeRate buy sell p = Some (Inl RangeError)"
    by (simp add: CalculateScaledExchangeRate_nonneg checked_uint256_def)
next
  assume a: "115792089237317 * 10 ^ 25 \<le> p"
  then have p: "0 \<le> p" by simp
  with a have "2 ^ 256 \<le> rawScaledRate p" by (simp only: rawScaledRate_overflow_iff)
  with p show "CalculateScaledExchangeRate buy sell p = Some (Inl OverflowError)"
    by (simp add: CalculateScaledExchangeRate_nonneg checked_uint256_def)
next
  assume a: "1 / (2 * 10 ^ 15) < p \<and> p < 115792089237317 * 10 ^ 25 \<and> buy \<noteq> '''' \<and> sell \<noteq> ''''"
  then have p: "0 \<le> p" by simp
  from a p have nz: "rawScaledRate p \<noteq> 0" by (simp add: rawScaledRate_zero_iff)
  from a p have lt: "rawScaledRate p < 2 ^ 256"
    using rawScaledRate_overflow_iff [OF p] by simp
  from nz lt have c: "checked_uint256 (rawScaledRate p) = Inr (word_of_nat (rawScaledRate p))"
    by (simp add: checked_uint256_def)
  have "CalculateScaledExchangeRate buy sell p = Some (Inr (word_of_nat (rawScaledRate p)))"
    using a by (simp add: CalculateScaledExchangeRate_nonneg [OF p] c)
  moreover have "real (unat (word_of_nat (rawScaledRate p) :: uint256)) = rendered p * 10 ^ 38"
    using lt by (simp only: unat_word_of_nat_256 rawScaledRate_exact(1) [OF p])
  ultimately show "\<exists>R. CalculateScaledExchangeRate buy sell p = Some (Inr R) \<and>
      real (unat R) = rendered p * 10 ^ 38"
    by blast
qed

theorem rate_domain_witness:
  "decimal_value ''100000000000000000000000000000000000000'' =
     Some 100000000000000000000000000000000000000 \<and>
   CalculateScaledExchangeRateFromString ''100000000000000000000000000000000000000'' =
     Inr 10000000000000000000000000000000000000000000000000000000000000000000000000000 \<and>
   (0::real) \<le> 2028240960365167 / 20282409603651670423947251286016 \<and>
   (2028240960365167 / 20282409603651670423947251286016 :: real) \<le> 1 / (2 * 10 ^ 15) \<and>
   CalculateScaledExchangeRate ''TestDAOCoinPubKey'' ''TestDAOCoinPubKey''
     (2028240960365167 / 20282409603651670423947251286016) = Some (Inl RangeError) \<and>
   (115792089237317 * 10 ^ 25 :: real) \<le> 2 ^ 131 \<and>
   CalculateScaledExchangeRate ''TestDAOCoinPubKey'' ''TestDAOCoinPubKey'' (2 ^ 131) =
     Some (Inl OverflowError) \<and>
   (1 / (2 * 10 ^ 15) :: real) < 1 \<and> (1::real) < 115792089237317 * 10 ^ 25 \<and>
   (\<exists>R. CalculateScaledExchangeRate ''TestDAOCoinPubKey'' ''TestDAOCoinPubKey'' 1 = Some (Inr R) \<and>
        real (unat R) = rendered 1 * 10 ^ 38)"
proof -
  note t1 = rate_domain [of "''100000000000000000000000000000000000000''"
      100000000000000000000000000000000000000
      "2028240960365167 / 20282409603651670423947251286016"
      "''TestDAOCoinPubKey''" "''TestDAOCoinPubKey''"]
  note t2 = rate_domain [of "''''" 0 "2 ^ 131" "''TestDAOCoinPubKey''" "''TestDAOCoinPubKey''"]
  note t3 = rate_domain [of "''''" 0 1 "''TestDAOCoinPubKey''" "''TestDAOCoinPubKey''"]
  from t1 decimal_value_1e38
  have a: "CalculateScaledExchangeRateFromString ''100000000000000000000000000000000000000'' =
      Inr 10000000000000000000000000000000000000000000000000000000000000000000000000000"
    and b: "CalculateScaledExchangeRate ''TestDAOCoinPubKey'' ''TestDAOCoinPubKey''
      (2028240960365167 / 20282409603651670423947251286016) = Some (Inl RangeError)"
    by simp_all
  from t2 have c: "CalculateScaledExchangeRate ''TestDAOCoinPubKey'' ''TestDAOCoinPubKey'' (2 ^ 131) =
      Some (Inl OverflowError)"
    by simp
  from t3 have d: "\<exists>R. CalculateScaledExchangeRate ''TestDAOCoinPubKey'' ''TestDAOCoinPubKey'' 1 =
      Some (Inr R) \<and> real (unat R) = rendered 1 * 10 ^ 38"
    by simp
  from a b c d decimal_value_1e38 show ?thesis by simp
qed

text \<open>
  C8. For a pair of two DAO coins the price string \<open>3\<close> gives the rate \<open>3 * 10^38\<close> for a BID
  and \<open>33333333333333333333333333333333333334\<close>, the ceiling of \<open>10^38 / 3\<close>, for an ASK. In
  general the BID rate of a decimal string is the integer part of its value times \<open>10^38\<close>
  (the parse floors), and the inverse of a rate is the ceiling of \<open>10^76\<close> over the rate.
\<close>

theorem price_string_example:
  assumes "buy \<noteq> ''''" and "sell \<noteq> ''''"
  shows "CalculateScaledExchangeRateFromPriceString buy sell ''3'' DAOCoinLimitOrderOperationTypeBID =
      Inr 300000000000000000000000000000000000000 \<and>
    CalculateScaledExchangeRateFromPriceString buy sell ''3'' DAOCoinLimitOrderOperationTypeASK =
      Inr 33333333333333333333333333333333333334 \<and>
    (300000000000000000000000000000000000000 :: int) = 3 * 10 ^ 38 \<and>
    (33333333333333333333333333333333333334 :: int) = \<lceil>(10 ^ 38 :: real) / 3\<rceil> \<and>
    (\<forall>s D. decimal_value s = Some D \<and> 1 \<le> D * 10 ^ 38 \<and> D * 10 ^ 38 < 2 ^ 256 \<longrightarrow>
       CalculateScaledExchangeRateFromPriceString buy sell s DAOCoinLimitOrderOperationTypeBID =
         Inr (word_of_nat (nat \<lfloor>D * 10 ^ 38\<rfloor>))) \<and>
    (\<forall>rate. rate \<noteq> 0 \<longrightarrow>
       invertScaledExchangeRate rate = checked_uint256 (nat \<lceil>10 ^ 76 / real (unat rate)\<rceil>))"
proof (intro conjI allI impI)
  show "CalculateScaledExchangeRateFromPriceString buy sell ''3'' DAOCoinLimitOrderOperationTypeBID =
      Inr 300000000000000000000000000000000000000"
    using assms
    by (simp add: CalculateScaledExchangeRateFromPriceString_def rate_string_3
        referenceCorrection_DAO)
next
  show "CalculateScaledExchangeRateFromPriceString buy sell ''3'' DAOCoinLimitOrderOperationTypeASK =
      Inr 33333333333333333333333333333333333334"
    using assms
    by (simp add: CalculateScaledExchangeRateFromPriceString_def rate_string_3 invert_3
        referenceCorrection_DAO)
next
  show "(300000000000000000000000000000000000000 :: int) = 3 * 10 ^ 38" by simp
next
  show "(33333333333333333333333333333333333334 :: int) = \<lceil>(10 ^ 38 :: real) / 3\<rceil>" by simp
next
  fix s D
  assume a: "decimal_value s = Some D \<and> 1 \<le> D * 10 ^ 38 \<and> D * 10 ^ 38 < 2 ^ 256"
  then have "CalculateScaledExchangeRateFromString s = Inr (word_of_nat (nat \<lfloor>D * 10 ^ 38\<rfloor>))"
    by (simp add: rate_of_decimal_string)
  then show "CalculateScaledExchangeRateFromPriceString buy sell s DAOCoinLimitOrderOperationTypeBID =
      Inr (word_of_nat (nat \<lfloor>D * 10 ^ 38\<rfloor>))"
    using assms by (simp add: CalculateScaledExchangeRateFromPriceString_def referenceCorrection_DAO)
next
  fix rate :: uint256
  assume "rate \<noteq> 0"
  then show "invertScaledExchangeRate rate =
      checked_uint256 (nat \<lceil>10 ^ 76 / real (unat rate)\<rceil>)"
    by (rule invertScaledExchangeRate_ceiling)
qed

theorem price_string_example_witness:
  "''TestDAOCoinPubKey'' \<noteq> '''' \<and>
   CalculateScaledExchangeRateFromPriceString ''TestDAOCoinPubKey'' ''TestDAOCoinPubKey'' ''3''
     DAOCoinLimitOrderOperationTypeBID = Inr 300000000000000000000000000000000000000 \<and>
   CalculateScaledExchangeRateFromPriceString ''TestDAOCoinPubKey'' ''TestDAOCoinPubKey'' ''3''
     DAOCoinLimitOrderOperationTypeASK = Inr 33333333333333333333333333333333333334 \<and>
   decimal_value ''3'' = Some 3 \<and> (1::real) \<le> 3 * 10 ^ 38 \<and> (3 * 10 ^ 38 :: real) < 2 ^ 256 \<and>
   (300000000000000000000000000000000000000 :: uint256) \<noteq> 0 \<and>
   invertScaledExchangeRate 300000000000000000000000000000000000000 =
     checked_uint256 (nat \<lceil>10 ^ 76 / real (unat (300000000000000000000000000000000000000 :: uint256))\<rceil>)"
proof -
  have n: "''TestDAOCoinPubKey'' \<noteq> ''''" by simp
  note t = price_string_example [OF n n]
  have z: "(300000000000000000000000000000000000000 :: uint256) \<noteq> 0" by simp
  from t z have i: "invertScaledExchangeRate 300000000000000000000000000000000000000 =
     checked_uint256 (nat \<lceil>10 ^ 76 / real (unat (300000000000000000000000000000000000000 :: uint256))\<rceil>)"
    by blast
  from t have "CalculateScaledExchangeRateFromPriceString ''TestDAOCoinPubKey'' ''TestDAOCoinPubKey''
      ''3'' DAOCoinLimitOrderOperationTypeBID = Inr 300000000000000000000000000000000000000"
    and "CalculateScaledExchangeRateFromPriceString ''TestDAOCoinPubKey'' ''TestDAOCoinPubKey''
      ''3'' DAOCoinLimitOrderOperationTypeASK = Inr 33333333333333333333333333333333333334"
    by blast+
  with n z i decimal_value_3 show ?thesis by simp
qed

end
